theory Spec2Isabelle
  imports Complex_Main
begin

section \<open>Numbers and vectors\<close>

text \<open>
  The program is the QuickHull port \<^verbatim>\<open>ConvexHull\<close> (a JavaScript module built on the
  three.js math classes). JavaScript numbers are modelled as exact reals: there is no
  rounding, no overflow and no NaN. The two places where the source divides are modelled
  with the guard the source or the library has: a division the source does not guard
  (\<^verbatim>\<open>Line3.closestPointToPointParameter\<close>) yields no number when the divisor is zero.
  \<^verbatim>\<open>Infinity\<close> occurs only in \<^verbatim>\<open>intersectRay\<close> and is a constructor of \<open>ext\<close>.
\<close>

datatype Vector3 = Vector3 (vx: real) (vy: real) (vz: real)

definition getComponent :: "Vector3 \<Rightarrow> nat \<Rightarrow> real" where
  "getComponent v j = (if j = 0 then vx v else if j = 1 then vy v else vz v)"

definition setComponent :: "Vector3 \<Rightarrow> nat \<Rightarrow> real \<Rightarrow> Vector3" where
  "setComponent v j r =
     (if j = 0 then Vector3 r (vy v) (vz v)
      else if j = 1 then Vector3 (vx v) r (vz v)
      else Vector3 (vx v) (vy v) r)"

definition dot :: "Vector3 \<Rightarrow> Vector3 \<Rightarrow> real" where
  "dot a b = vx a * vx b + vy a * vy b + vz a * vz b"

definition subVectors :: "Vector3 \<Rightarrow> Vector3 \<Rightarrow> Vector3" where
  "subVectors a b = Vector3 (vx a - vx b) (vy a - vy b) (vz a - vz b)"

definition addVectors :: "Vector3 \<Rightarrow> Vector3 \<Rightarrow> Vector3" where
  "addVectors a b = Vector3 (vx a + vx b) (vy a + vy b) (vz a + vz b)"

definition multiplyScalar :: "Vector3 \<Rightarrow> real \<Rightarrow> Vector3" where
  "multiplyScalar a r = Vector3 (vx a * r) (vy a * r) (vz a * r)"

definition cross :: "Vector3 \<Rightarrow> Vector3 \<Rightarrow> Vector3" where
  "cross a b =
     Vector3 (vy a * vz b - vz a * vy b) (vz a * vx b - vx a * vz b) (vx a * vy b - vy a * vx b)"

definition lengthSq :: "Vector3 \<Rightarrow> real" where
  "lengthSq a = dot a a"

definition distanceToSquared :: "Vector3 \<Rightarrow> Vector3 \<Rightarrow> real" where
  "distanceToSquared a b = lengthSq (subVectors a b)"

text \<open>\<^verbatim>\<open>Vector3.normalize\<close>: \<^verbatim>\<open>divideScalar(this.length() || 1)\<close>.\<close>

definition normalize :: "Vector3 \<Rightarrow> Vector3" where
  "normalize a =
     (let l = sqrt (lengthSq a) in multiplyScalar a (1 / (if l = 0 then 1 else l)))"

text \<open>\<^verbatim>\<open>Number.EPSILON\<close>\<close>

definition Number_EPSILON :: real where
  "Number_EPSILON = 1 / 2 ^ 52"

subsection \<open>The three.js helpers the hull uses\<close>

text \<open>
  \<^verbatim>\<open>Line3.closestPointToPoint(point, true, target)\<close>: the parameter is
  \<^verbatim>\<open>startEnd.dot(startP) / startEnd.dot(startEnd)\<close>, clamped to \<open>[0, 1]\<close>. When the two
  points of the line coincide the quotient is \<^verbatim>\<open>0 / 0\<close>, a NaN: the result is \<open>None\<close>, and every
  comparison with it is false. In that case every difference is exactly zero in the source
  too. For two distinct end points the model has the exact closest point, where the source
  rounds each operation: for a point on the line the source may find a distance that is a
  tiny positive number instead of zero. No theorem below rests on the distance of such a
  point.
\<close>

definition clamp :: "real \<Rightarrow> real \<Rightarrow> real \<Rightarrow> real" where
  "clamp v lo hi = max lo (min hi v)"

definition closestPointToPoint :: "Vector3 \<Rightarrow> Vector3 \<Rightarrow> Vector3 \<Rightarrow> Vector3 option" where
  "closestPointToPoint start finish p =
     (let startP = subVectors p start;
          startEnd = subVectors finish start;
          startEnd2 = dot startEnd startEnd;
          startEnd_startP = dot startEnd startP
      in if startEnd2 = 0 then None
         else Some (addVectors (multiplyScalar startEnd (clamp (startEnd_startP / startEnd2) 0 1))
                               start))"

record Plane =
  p_normal :: Vector3
  p_constant :: real

definition setFromCoplanarPoints :: "Vector3 \<Rightarrow> Vector3 \<Rightarrow> Vector3 \<Rightarrow> Plane" where
  "setFromCoplanarPoints a b c =
     (let n = normalize (cross (subVectors c b) (subVectors a b))
      in \<lparr>p_normal = n, p_constant = - dot a n\<rparr>)"

definition plane_distanceToPoint :: "Plane \<Rightarrow> Vector3 \<Rightarrow> real" where
  "plane_distanceToPoint pl p = dot (p_normal pl) p + p_constant pl"

text \<open>\<^verbatim>\<open>Triangle.getNormal\<close>, \<^verbatim>\<open>getMidpoint\<close> and \<^verbatim>\<open>getArea\<close>.\<close>

definition triangle_getNormal :: "Vector3 \<Rightarrow> Vector3 \<Rightarrow> Vector3 \<Rightarrow> Vector3" where
  "triangle_getNormal a b c =
     (let t = cross (subVectors c b) (subVectors a b); l2 = lengthSq t
      in if l2 > 0 then multiplyScalar t (1 / sqrt l2) else Vector3 0 0 0)"

definition triangle_getMidpoint :: "Vector3 \<Rightarrow> Vector3 \<Rightarrow> Vector3 \<Rightarrow> Vector3" where
  "triangle_getMidpoint a b c = multiplyScalar (addVectors (addVectors a b) c) (1 / 3)"

definition triangle_getArea :: "Vector3 \<Rightarrow> Vector3 \<Rightarrow> Vector3 \<Rightarrow> real" where
  "triangle_getArea a b c = sqrt (lengthSq (cross (subVectors c b) (subVectors a b))) * (1 / 2)"

record Ray =
  origin :: Vector3
  direction :: Vector3

text \<open>\<^verbatim>\<open>Ray.at(t, target)\<close> for a finite parameter.\<close>

definition ray_at :: "Ray \<Rightarrow> real \<Rightarrow> Vector3" where
  "ray_at ray t = addVectors (multiplyScalar (direction ray) t) (origin ray)"

text \<open>The numbers \<^verbatim>\<open>tNear\<close> and \<^verbatim>\<open>tFar\<close> of \<^verbatim>\<open>intersectRay\<close> start at \<^verbatim>\<open>-Infinity\<close> and \<^verbatim>\<open>Infinity\<close>.\<close>

datatype ext = MInf | Fin real | PInf

fun ext_less :: "ext \<Rightarrow> ext \<Rightarrow> bool" where
  "ext_less MInf MInf = False"
| "ext_less MInf _ = True"
| "ext_less (Fin a) (Fin b) = (a < b)"
| "ext_less (Fin a) PInf = True"
| "ext_less (Fin a) MInf = False"
| "ext_less PInf _ = False"

definition ext_min :: "ext \<Rightarrow> ext \<Rightarrow> ext" where
  "ext_min a b = (if ext_less b a then b else a)"

definition ext_max :: "ext \<Rightarrow> ext \<Rightarrow> ext" where
  "ext_max a b = (if ext_less a b then b else a)"

section \<open>The data model\<close>

text \<open>
  Objects live in three stores, addressed by the order of their allocation: vertex nodes,
  half edges and faces. A reference is a store index, \<^verbatim>\<open>null\<close> and \<^verbatim>\<open>undefined\<close> are
  \<open>None\<close>. Reading a property of \<^verbatim>\<open>null\<close> or \<^verbatim>\<open>undefined\<close> throws a \<^verbatim>\<open>TypeError\<close>.
\<close>

datatype mark = Visible | Deleted

record VertexNode =
  point :: Vector3
  v_prev :: "nat option"
  v_next :: "nat option"
  v_face :: "nat option"

record HalfEdge =
  vertex :: nat
  e_prev :: "nat option"
  e_next :: "nat option"
  twin :: "nat option"
  e_face :: nat

record Face =
  normal :: Vector3
  midpoint :: Vector3
  area :: real
  f_constant :: real
  outside :: "nat option"
  mark :: mark
  edge :: "nat option"

record VertexList =
  l_head :: "nat option"
  l_tail :: "nat option"

text \<open>
  The hull object with the three stores and the console. \<open>console\<close> collects the messages of
  \<^verbatim>\<open>console.error\<close>, which reports and does not throw.
\<close>

record ConvexHull =
  tolerance :: real
  faces :: "nat list"
  newFaces :: "nat list"
  assigned :: VertexList
  unassigned :: VertexList
  vertices :: "nat list"
  vnodes :: "nat \<Rightarrow> VertexNode"
  n_vnodes :: nat
  hedges :: "nat \<Rightarrow> HalfEdge"
  n_hedges :: nat
  fobjs :: "nat \<Rightarrow> Face"
  n_fobjs :: nat
  console :: "string list"

text \<open>
  A thrown exception leaves the object as mutated so far: an error carries the state at the
  throw. \<open>OutOfFuel\<close> is not an exception of the source: it is the value of a loop of the
  model that was given too little fuel.
\<close>

datatype error = TypeError | OutOfFuel

type_synonym 'a res = "(error \<times> ConvexHull) + 'a"

definition bind_res :: "'a res \<Rightarrow> ('a \<Rightarrow> 'b res) \<Rightarrow> 'b res" where
  "bind_res r f = (case r of Inl e \<Rightarrow> Inl e | Inr x \<Rightarrow> f x)"

definition empty_list :: VertexList where
  "empty_list = \<lparr>l_head = None, l_tail = None\<rparr>"

text \<open>\<^verbatim>\<open>new ConvexHull()\<close>, with nothing allocated yet.\<close>

definition new_ConvexHull :: ConvexHull where
  "new_ConvexHull =
     \<lparr>tolerance = - 1, faces = [], newFaces = [], assigned = empty_list,
      unassigned = empty_list, vertices = [],
      vnodes = (\<lambda>_. \<lparr>point = Vector3 0 0 0, v_prev = None, v_next = None, v_face = None\<rparr>),
      n_vnodes = 0,
      hedges = (\<lambda>_. \<lparr>vertex = 0, e_prev = None, e_next = None, twin = None, e_face = 0\<rparr>),
      n_hedges = 0,
      fobjs = (\<lambda>_. \<lparr>normal = Vector3 0 0 0, midpoint = Vector3 0 0 0, area = 0, f_constant = 0,
                     outside = None, mark = Visible, edge = None\<rparr>),
      n_fobjs = 0,
      console = []\<rparr>"

definition makeEmpty :: "ConvexHull \<Rightarrow> ConvexHull" where
  "makeEmpty s = s\<lparr>faces := [], vertices := []\<rparr>"

section \<open>Queries\<close>

definition distanceToPoint :: "Face \<Rightarrow> Vector3 \<Rightarrow> real" where
  "distanceToPoint f p = dot (normal f) p - f_constant f"

fun containsPoint_loop :: "(nat \<Rightarrow> Face) \<Rightarrow> real \<Rightarrow> Vector3 \<Rightarrow> nat list \<Rightarrow> bool" where
  "containsPoint_loop fs tol p [] = True"
| "containsPoint_loop fs tol p (f # rest) =
     (if distanceToPoint (fs f) p > tol then False else containsPoint_loop fs tol p rest)"

definition containsPoint :: "ConvexHull \<Rightarrow> Vector3 \<Rightarrow> bool" where
  "containsPoint s p = containsPoint_loop (fobjs s) (tolerance s) p (faces s)"

text \<open>
  \<^verbatim>\<open>intersectRay(ray, target)\<close> returns \<^verbatim>\<open>null\<close> or \<^verbatim>\<open>target\<close> after \<^verbatim>\<open>ray.at(t, target)\<close>;
  \<open>At t\<close> stands for the target set by \<^verbatim>\<open>ray.at(t, target)\<close>.
\<close>

datatype intersection = Null | At ext

fun intersectRay_loop :: "(nat \<Rightarrow> Face) \<Rightarrow> Ray \<Rightarrow> nat list \<Rightarrow> ext \<Rightarrow> ext \<Rightarrow> intersection" where
  "intersectRay_loop fs ray [] tNear tFar = (if tNear \<noteq> MInf then At tNear else At tFar)"
| "intersectRay_loop fs ray (f # rest) tNear tFar =
     (let vN = distanceToPoint (fs f) (origin ray);
          vD = dot (normal (fs f)) (direction ray)
      in if vN > 0 \<and> vD \<ge> 0 then Null
         else let t = (if vD \<noteq> 0 then - vN / vD else 0)
              in if t \<le> 0 then intersectRay_loop fs ray rest tNear tFar
                 else let tFar' = (if vD > 0 then ext_min (Fin t) tFar else tFar);
                          tNear' = (if vD > 0 then tNear else ext_max (Fin t) tNear)
                      in if ext_less tFar' tNear' then Null
                         else intersectRay_loop fs ray rest tNear' tFar')"

definition intersectRay :: "ConvexHull \<Rightarrow> Ray \<Rightarrow> intersection" where
  "intersectRay s ray = intersectRay_loop (fobjs s) ray (faces s) MInf PInf"

section \<open>Vertex lists\<close>

text \<open>
  \<^verbatim>\<open>VertexList\<close> is a doubly linked list threaded through the \<^verbatim>\<open>prev\<close> and \<^verbatim>\<open>next\<close>
  properties of the vertex nodes. The hull owns two of them; \<open>ledger\<close> says which one a
  method is called on.
\<close>

datatype ledger = Assigned | Unassigned

definition get_list :: "ledger \<Rightarrow> ConvexHull \<Rightarrow> VertexList" where
  "get_list l s = (case l of Assigned \<Rightarrow> assigned s | Unassigned \<Rightarrow> unassigned s)"

definition set_head :: "ledger \<Rightarrow> nat option \<Rightarrow> ConvexHull \<Rightarrow> ConvexHull" where
  "set_head l h s =
     (case l of Assigned \<Rightarrow> s\<lparr>assigned := (assigned s)\<lparr>l_head := h\<rparr>\<rparr>
              | Unassigned \<Rightarrow> s\<lparr>unassigned := (unassigned s)\<lparr>l_head := h\<rparr>\<rparr>)"

definition set_tail :: "ledger \<Rightarrow> nat option \<Rightarrow> ConvexHull \<Rightarrow> ConvexHull" where
  "set_tail l t s =
     (case l of Assigned \<Rightarrow> s\<lparr>assigned := (assigned s)\<lparr>l_tail := t\<rparr>\<rparr>
              | Unassigned \<Rightarrow> s\<lparr>unassigned := (unassigned s)\<lparr>l_tail := t\<rparr>\<rparr>)"

definition set_v_prev :: "nat \<Rightarrow> nat option \<Rightarrow> ConvexHull \<Rightarrow> ConvexHull" where
  "set_v_prev v p s = s\<lparr>vnodes := (vnodes s)(v := (vnodes s v)\<lparr>v_prev := p\<rparr>)\<rparr>"

definition set_v_next :: "nat \<Rightarrow> nat option \<Rightarrow> ConvexHull \<Rightarrow> ConvexHull" where
  "set_v_next v n s = s\<lparr>vnodes := (vnodes s)(v := (vnodes s v)\<lparr>v_next := n\<rparr>)\<rparr>"

definition set_v_face :: "nat \<Rightarrow> nat option \<Rightarrow> ConvexHull \<Rightarrow> ConvexHull" where
  "set_v_face v f s = s\<lparr>vnodes := (vnodes s)(v := (vnodes s v)\<lparr>v_face := f\<rparr>)\<rparr>"

definition list_first :: "ledger \<Rightarrow> ConvexHull \<Rightarrow> nat option" where
  "list_first l s = l_head (get_list l s)"

definition list_isEmpty :: "ledger \<Rightarrow> ConvexHull \<Rightarrow> bool" where
  "list_isEmpty l s = (l_head (get_list l s) = None)"

definition list_clear :: "ledger \<Rightarrow> ConvexHull \<Rightarrow> ConvexHull" where
  "list_clear l s = set_tail l None (set_head l None s)"

definition list_insertBefore :: "ledger \<Rightarrow> nat \<Rightarrow> nat \<Rightarrow> ConvexHull \<Rightarrow> ConvexHull" where
  "list_insertBefore l target v s =
     (let s1 = set_v_prev v (v_prev (vnodes s target)) s;
          s2 = set_v_next v (Some target) s1;
          s3 = (case v_prev (vnodes s2 v) of
                  None \<Rightarrow> set_head l (Some v) s2
                | Some p \<Rightarrow> set_v_next p (Some v) s2)
      in set_v_prev target (Some v) s3)"

definition list_insertAfter :: "ledger \<Rightarrow> nat \<Rightarrow> nat \<Rightarrow> ConvexHull \<Rightarrow> ConvexHull" where
  "list_insertAfter l target v s =
     (let s1 = set_v_prev v (Some target) s;
          s2 = set_v_next v (v_next (vnodes s1 target)) s1;
          s3 = (case v_next (vnodes s2 v) of
                  None \<Rightarrow> set_tail l (Some v) s2
                | Some n \<Rightarrow> set_v_prev n (Some v) s2)
      in set_v_next target (Some v) s3)"

text \<open>\<^verbatim>\<open>append\<close> reads \<^verbatim>\<open>this.tail.next\<close> when the head is set: a \<^verbatim>\<open>TypeError\<close> without a tail.\<close>

definition list_append :: "ledger \<Rightarrow> nat \<Rightarrow> ConvexHull \<Rightarrow> ConvexHull res" where
  "list_append l v s =
     bind_res
       (case l_head (get_list l s) of
          None \<Rightarrow> Inr (set_head l (Some v) s)
        | Some _ \<Rightarrow>
            (case l_tail (get_list l s) of
               None \<Rightarrow> Inl (TypeError, s)
             | Some t \<Rightarrow> Inr (set_v_next t (Some v) s)))
       (\<lambda>s1. let s2 = set_v_prev v (l_tail (get_list l s1)) s1;
                  s3 = set_v_next v None s2
              in Inr (set_tail l (Some v) s3))"

text \<open>The \<^verbatim>\<open>while (vertex.next !== null)\<close> of \<^verbatim>\<open>appendChain\<close>.\<close>

fun chain_end :: "nat \<Rightarrow> (nat \<Rightarrow> VertexNode) \<Rightarrow> nat \<Rightarrow> nat option" where
  "chain_end 0 vs v = None"
| "chain_end (Suc n) vs v =
     (case v_next (vs v) of None \<Rightarrow> Some v | Some w \<Rightarrow> chain_end n vs w)"

definition list_appendChain :: "nat \<Rightarrow> ledger \<Rightarrow> nat \<Rightarrow> ConvexHull \<Rightarrow> ConvexHull res" where
  "list_appendChain k l v s =
     bind_res
       (case l_head (get_list l s) of
          None \<Rightarrow> Inr (set_head l (Some v) s)
        | Some _ \<Rightarrow>
            (case l_tail (get_list l s) of
               None \<Rightarrow> Inl (TypeError, s)
             | Some t \<Rightarrow> Inr (set_v_next t (Some v) s)))
       (\<lambda>s1. let s2 = set_v_prev v (l_tail (get_list l s1)) s1
              in case chain_end k (vnodes s2) v of
                   None \<Rightarrow> Inl (OutOfFuel, s2)
                 | Some w \<Rightarrow> Inr (set_tail l (Some w) s2))"

definition list_remove :: "ledger \<Rightarrow> nat \<Rightarrow> ConvexHull \<Rightarrow> ConvexHull" where
  "list_remove l v s =
     (let s1 = (case v_prev (vnodes s v) of
                  None \<Rightarrow> set_head l (v_next (vnodes s v)) s
                | Some p \<Rightarrow> set_v_next p (v_next (vnodes s v)) s)
      in case v_next (vnodes s1 v) of
           None \<Rightarrow> set_tail l (v_prev (vnodes s1 v)) s1
         | Some n \<Rightarrow> set_v_prev n (v_prev (vnodes s1 v)) s1)"

definition list_removeSubList :: "ledger \<Rightarrow> nat \<Rightarrow> nat \<Rightarrow> ConvexHull \<Rightarrow> ConvexHull" where
  "list_removeSubList l a b s =
     (let s1 = (case v_prev (vnodes s a) of
                  None \<Rightarrow> set_head l (v_next (vnodes s b)) s
                | Some p \<Rightarrow> set_v_next p (v_next (vnodes s b)) s)
      in case v_next (vnodes s1 b) of
           None \<Rightarrow> set_tail l (v_prev (vnodes s1 a)) s1
         | Some n \<Rightarrow> set_v_prev n (v_prev (vnodes s1 a)) s1)"

section \<open>Half edges and faces\<close>

definition set_twin :: "nat \<Rightarrow> nat option \<Rightarrow> ConvexHull \<Rightarrow> ConvexHull" where
  "set_twin e t s = s\<lparr>hedges := (hedges s)(e := (hedges s e)\<lparr>twin := t\<rparr>)\<rparr>"

definition set_outside :: "nat \<Rightarrow> nat option \<Rightarrow> ConvexHull \<Rightarrow> ConvexHull" where
  "set_outside f v s = s\<lparr>fobjs := (fobjs s)(f := (fobjs s f)\<lparr>outside := v\<rparr>)\<rparr>"

definition set_mark :: "nat \<Rightarrow> mark \<Rightarrow> ConvexHull \<Rightarrow> ConvexHull" where
  "set_mark f m s = s\<lparr>fobjs := (fobjs s)(f := (fobjs s f)\<lparr>mark := m\<rparr>)\<rparr>"

text \<open>\<^verbatim>\<open>HalfEdge.head\<close> and \<^verbatim>\<open>HalfEdge.tail\<close>; the tail is \<^verbatim>\<open>null\<close> without a previous edge.\<close>

definition he_head :: "ConvexHull \<Rightarrow> nat \<Rightarrow> nat" where
  "he_head s e = vertex (hedges s e)"

definition he_tail :: "ConvexHull \<Rightarrow> nat \<Rightarrow> nat option" where
  "he_tail s e = (case e_prev (hedges s e) of None \<Rightarrow> None | Some p \<Rightarrow> Some (vertex (hedges s p)))"

text \<open>
  \<^verbatim>\<open>a.setTwin(b)\<close>, where either reference may be \<^verbatim>\<open>null\<close>: the call on \<^verbatim>\<open>null\<close> throws, and
  with \<^verbatim>\<open>b\<close> \<^verbatim>\<open>null\<close> the write to \<^verbatim>\<open>edge.twin\<close> throws after \<^verbatim>\<open>this.twin\<close> was set.
\<close>

definition setTwin :: "nat option \<Rightarrow> nat option \<Rightarrow> ConvexHull \<Rightarrow> ConvexHull res" where
  "setTwin a b s =
     (case a of
        None \<Rightarrow> Inl (TypeError, s)
      | Some e \<Rightarrow>
          (let s1 = set_twin e b s
           in case b of
                None \<Rightarrow> Inl (TypeError, s1)
              | Some t \<Rightarrow> Inr (set_twin t (Some e) s1)))"

text \<open>
  \<^verbatim>\<open>Face.getEdge(i)\<close> walks \<^verbatim>\<open>next\<close> for a positive and \<^verbatim>\<open>prev\<close> for a negative \<open>i\<close>; the
  outer \<open>None\<close> is the \<^verbatim>\<open>TypeError\<close> of a step from \<^verbatim>\<open>null\<close>.
\<close>

fun walk_next :: "(nat \<Rightarrow> HalfEdge) \<Rightarrow> nat \<Rightarrow> nat option \<Rightarrow> nat option option" where
  "walk_next hs 0 e = Some e"
| "walk_next hs (Suc n) None = None"
| "walk_next hs (Suc n) (Some e) = walk_next hs n (e_next (hs e))"

fun walk_prev :: "(nat \<Rightarrow> HalfEdge) \<Rightarrow> nat \<Rightarrow> nat option \<Rightarrow> nat option option" where
  "walk_prev hs 0 e = Some e"
| "walk_prev hs (Suc n) None = None"
| "walk_prev hs (Suc n) (Some e) = walk_prev hs n (e_prev (hs e))"

definition getEdge :: "ConvexHull \<Rightarrow> nat \<Rightarrow> int \<Rightarrow> nat option res" where
  "getEdge s f i =
     (case (if i \<ge> 0 then walk_next (hedges s) (nat i) (edge (fobjs s f))
            else walk_prev (hedges s) (nat (- i)) (edge (fobjs s f))) of
        None \<Rightarrow> Inl (TypeError, s)
      | Some e \<Rightarrow> Inr e)"

text \<open>\<^verbatim>\<open>Face.compute\<close>: the triangle is \<^verbatim>\<open>(edge.tail(), edge.head(), edge.next.head())\<close>.\<close>

definition Face_compute :: "nat \<Rightarrow> ConvexHull \<Rightarrow> ConvexHull res" where
  "Face_compute f s =
     (case edge (fobjs s f) of
        None \<Rightarrow> Inl (TypeError, s)
      | Some e \<Rightarrow>
          (case he_tail s e of
             None \<Rightarrow> Inl (TypeError, s)
           | Some a \<Rightarrow>
               (case e_next (hedges s e) of
                  None \<Rightarrow> Inl (TypeError, s)
                | Some e1 \<Rightarrow>
                    (let pa = point (vnodes s a);
                         pb = point (vnodes s (he_head s e));
                         pc = point (vnodes s (he_head s e1));
                         n = triangle_getNormal pa pb pc;
                         m = triangle_getMidpoint pa pb pc
                     in Inr (s\<lparr>fobjs := (fobjs s)(f := (fobjs s f)
                               \<lparr>normal := n, midpoint := m, area := triangle_getArea pa pb pc,
                                f_constant := dot n m\<rparr>)\<rparr>)))))"

text \<open>
  \<^verbatim>\<open>Face.create(a, b, c)\<close> allocates the face and its three half edges, joins the edges to
  a cycle and computes the plane. It returns the new face.
\<close>

definition Face_create :: "nat \<Rightarrow> nat \<Rightarrow> nat \<Rightarrow> ConvexHull \<Rightarrow> (ConvexHull \<times> nat) res" where
  "Face_create a b c s =
     (let f = n_fobjs s;
          e0 = n_hedges s; e1 = e0 + 1; e2 = e0 + 2;
          s1 = s\<lparr>fobjs := (fobjs s)(f :=
                    \<lparr>normal = Vector3 0 0 0, midpoint = Vector3 0 0 0, area = 0, f_constant = 0,
                     outside = None, mark = Visible, edge = Some e0\<rparr>),
                 n_fobjs := f + 1,
                 hedges := (hedges s)
                    (e0 := \<lparr>vertex = a, e_prev = Some e2, e_next = Some e1, twin = None, e_face = f\<rparr>,
                     e1 := \<lparr>vertex = b, e_prev = Some e0, e_next = Some e2, twin = None, e_face = f\<rparr>,
                     e2 := \<lparr>vertex = c, e_prev = Some e1, e_next = Some e0, twin = None, e_face = f\<rparr>),
                 n_hedges := e0 + 3\<rparr>
      in bind_res (Face_compute f s1) (\<lambda>s2. Inr (s2, f)))"

section \<open>Assigning vertices to faces\<close>

definition addVertexToFace :: "nat \<Rightarrow> nat \<Rightarrow> ConvexHull \<Rightarrow> ConvexHull res" where
  "addVertexToFace v f s =
     (let s1 = set_v_face v (Some f) s
      in bind_res
           (case outside (fobjs s1 f) of
              None \<Rightarrow> list_append Assigned v s1
            | Some t \<Rightarrow> Inr (list_insertBefore Assigned t v s1))
           (\<lambda>s2. Inr (set_outside f (Some v) s2)))"

definition removeVertexFromFace :: "nat \<Rightarrow> nat \<Rightarrow> ConvexHull \<Rightarrow> ConvexHull" where
  "removeVertexFromFace v f s =
     (let s1 = (if Some v = outside (fobjs s f)
                then (case v_next (vnodes s v) of
                        None \<Rightarrow> set_outside f None s
                      | Some n \<Rightarrow>
                          if v_face (vnodes s n) = Some f then set_outside f (Some n) s
                          else set_outside f None s)
                else s)
      in list_remove Assigned v s1)"

text \<open>The \<^verbatim>\<open>while (end.next !== null && end.next.face === face)\<close> of \<^verbatim>\<open>removeAllVerticesFromFace\<close>.\<close>

fun run_end :: "nat \<Rightarrow> (nat \<Rightarrow> VertexNode) \<Rightarrow> nat \<Rightarrow> nat \<Rightarrow> nat option" where
  "run_end 0 vs f v = None"
| "run_end (Suc n) vs f v =
     (case v_next (vs v) of
        None \<Rightarrow> Some v
      | Some w \<Rightarrow> if v_face (vs w) = Some f then run_end n vs f w else Some v)"

text \<open>The result is the state and the first removed vertex, \<open>None\<close> for \<^verbatim>\<open>undefined\<close>.\<close>

definition removeAllVerticesFromFace :: "nat \<Rightarrow> nat \<Rightarrow> ConvexHull \<Rightarrow> (ConvexHull \<times> nat option) res" where
  "removeAllVerticesFromFace k f s =
     (case outside (fobjs s f) of
        None \<Rightarrow> Inr (s, None)
      | Some start \<Rightarrow>
          (case run_end k (vnodes s) f start of
             None \<Rightarrow> Inl (OutOfFuel, s)
           | Some stop \<Rightarrow>
               (let s1 = list_removeSubList Assigned start stop s;
                    s2 = set_v_next stop None s1;
                    s3 = set_v_prev start None s2
                in Inr (set_outside f None s3, Some start))))"

text \<open>The \<^verbatim>\<open>do ... while (vertex !== null)\<close> of \<^verbatim>\<open>deleteFaceVertices\<close> with an absorbing face.\<close>

fun absorb_loop :: "nat \<Rightarrow> nat \<Rightarrow> nat \<Rightarrow> ConvexHull \<Rightarrow> ConvexHull res" where
  "absorb_loop 0 absorbingFace v s = Inl (OutOfFuel, s)"
| "absorb_loop (Suc n) absorbingFace v s =
     (let nextVertex = v_next (vnodes s v);
          distance = distanceToPoint (fobjs s absorbingFace) (point (vnodes s v))
      in bind_res
           (if distance > tolerance s then addVertexToFace v absorbingFace s
            else list_append Unassigned v s)
           (\<lambda>s1. case nextVertex of None \<Rightarrow> Inr s1 | Some w \<Rightarrow> absorb_loop n absorbingFace w s1))"

definition deleteFaceVertices :: "nat \<Rightarrow> nat \<Rightarrow> nat option \<Rightarrow> ConvexHull \<Rightarrow> ConvexHull res" where
  "deleteFaceVertices k f absorbingFace s =
     bind_res (removeAllVerticesFromFace k f s)
       (\<lambda>(s1, faceVertices).
          case faceVertices of
            None \<Rightarrow> Inr s1
          | Some v \<Rightarrow>
              (case absorbingFace of
                 None \<Rightarrow> list_appendChain k Unassigned v s1
               | Some a \<Rightarrow> absorb_loop k a v s1))"

text \<open>The scan of the new faces in \<^verbatim>\<open>resolveUnassignedPoints\<close>, with its \<^verbatim>\<open>break\<close>.\<close>

fun max_new_face :: "ConvexHull \<Rightarrow> Vector3 \<Rightarrow> nat list \<Rightarrow> real \<Rightarrow> nat option \<Rightarrow> nat option" where
  "max_new_face s p [] maxDistance maxFace = maxFace"
| "max_new_face s p (f # rest) maxDistance maxFace =
     (if mark (fobjs s f) = Visible
      then (let distance = distanceToPoint (fobjs s f) p;
                maxDistance' = (if distance > maxDistance then distance else maxDistance);
                maxFace' = (if distance > maxDistance then Some f else maxFace)
            in if maxDistance' > 1000 * tolerance s then maxFace'
               else max_new_face s p rest maxDistance' maxFace')
      else max_new_face s p rest maxDistance maxFace)"

fun resolve_loop :: "nat \<Rightarrow> nat list \<Rightarrow> nat \<Rightarrow> ConvexHull \<Rightarrow> ConvexHull res" where
  "resolve_loop 0 nf v s = Inl (OutOfFuel, s)"
| "resolve_loop (Suc n) nf v s =
     (let nextVertex = v_next (vnodes s v)
      in bind_res
           (case max_new_face s (point (vnodes s v)) nf (tolerance s) None of
              None \<Rightarrow> Inr s
            | Some maxFace \<Rightarrow> addVertexToFace v maxFace s)
           (\<lambda>s1. case nextVertex of None \<Rightarrow> Inr s1 | Some w \<Rightarrow> resolve_loop n nf w s1))"

definition resolveUnassignedPoints :: "nat \<Rightarrow> nat list \<Rightarrow> ConvexHull \<Rightarrow> ConvexHull res" where
  "resolveUnassignedPoints k nf s =
     (case list_first Unassigned s of
        None \<Rightarrow> Inr s
      | Some v \<Rightarrow> resolve_loop k nf v s)"

section \<open>The initial simplex\<close>

text \<open>
  \<^verbatim>\<open>computeExtremes\<close>: the two inner loops over the components \<open>j\<close>, then the loop over the
  vertices. The minimum and maximum vertices are arrays of three vertex references.
\<close>

record extremes =
  ex_min :: Vector3
  ex_max :: Vector3
  minVertices :: "nat list"
  maxVertices :: "nat list"

definition update_min :: "Vector3 \<Rightarrow> nat \<Rightarrow> nat \<Rightarrow> extremes \<Rightarrow> extremes" where
  "update_min p v j ex =
     (if getComponent p j < getComponent (ex_min ex) j
      then ex\<lparr>ex_min := setComponent (ex_min ex) j (getComponent p j),
              minVertices := (minVertices ex)[j := v]\<rparr>
      else ex)"

definition update_max :: "Vector3 \<Rightarrow> nat \<Rightarrow> nat \<Rightarrow> extremes \<Rightarrow> extremes" where
  "update_max p v j ex =
     (if getComponent p j > getComponent (ex_max ex) j
      then ex\<lparr>ex_max := setComponent (ex_max ex) j (getComponent p j),
              maxVertices := (maxVertices ex)[j := v]\<rparr>
      else ex)"

definition extremes_step :: "(nat \<Rightarrow> VertexNode) \<Rightarrow> nat \<Rightarrow> extremes \<Rightarrow> extremes" where
  "extremes_step vs v ex =
     fold (update_max (point (vs v)) v) [0, 1, 2]
       (fold (update_min (point (vs v)) v) [0, 1, 2] ex)"

definition tolerance_of :: "Vector3 \<Rightarrow> Vector3 \<Rightarrow> real" where
  "tolerance_of mn mx =
     3 * Number_EPSILON *
       (max (abs (vx mn)) (abs (vx mx)) + max (abs (vy mn)) (abs (vy mx))
        + max (abs (vz mn)) (abs (vz mx)))"

text \<open>With no vertex, \<^verbatim>\<open>this.vertices[0].point\<close> throws.\<close>

definition computeExtremes :: "ConvexHull \<Rightarrow> (ConvexHull \<times> extremes) res" where
  "computeExtremes s =
     (case vertices s of
        [] \<Rightarrow> Inl (TypeError, s)
      | v0 # _ \<Rightarrow>
          (let ex0 = \<lparr>ex_min = point (vnodes s v0), ex_max = point (vnodes s v0),
                      minVertices = [v0, v0, v0], maxVertices = [v0, v0, v0]\<rparr>;
               ex = fold (extremes_step (vnodes s)) (vertices s) ex0
           in Inr (s\<lparr>tolerance := tolerance_of (ex_min ex) (ex_max ex)\<rparr>, ex)))"

text \<open>Step 1 of \<^verbatim>\<open>computeInitialHull\<close>: the axis of the greatest separation.\<close>

definition axis_step :: "(nat \<Rightarrow> VertexNode) \<Rightarrow> extremes \<Rightarrow> nat \<Rightarrow> real \<times> nat \<Rightarrow> real \<times> nat" where
  "axis_step vs ex i acc =
     (let distance = getComponent (point (vs (maxVertices ex ! i))) i
                   - getComponent (point (vs (minVertices ex ! i))) i
      in if distance > fst acc then (distance, i) else acc)"

definition greatest_axis :: "(nat \<Rightarrow> VertexNode) \<Rightarrow> extremes \<Rightarrow> nat" where
  "greatest_axis vs ex = snd (fold (axis_step vs ex) [0, 1, 2] (0, 0))"

text \<open>Step 2: the vertex farthest from the line through \<open>v0\<close> and \<open>v1\<close>; \<open>None\<close> is \<^verbatim>\<open>undefined\<close>.\<close>

fun find_v2 :: "(nat \<Rightarrow> VertexNode) \<Rightarrow> nat \<Rightarrow> nat \<Rightarrow> nat list \<Rightarrow> real \<Rightarrow> nat option \<Rightarrow> nat option" where
  "find_v2 vs v0 v1 [] maxDistance v2 = v2"
| "find_v2 vs v0 v1 (v # rest) maxDistance v2 =
     (if v \<noteq> v0 \<and> v \<noteq> v1
      then (case closestPointToPoint (point (vs v0)) (point (vs v1)) (point (vs v)) of
              None \<Rightarrow> find_v2 vs v0 v1 rest maxDistance v2
            | Some closestPoint \<Rightarrow>
                (let distance = distanceToSquared closestPoint (point (vs v))
                 in if distance > maxDistance then find_v2 vs v0 v1 rest distance (Some v)
                    else find_v2 vs v0 v1 rest maxDistance v2))
      else find_v2 vs v0 v1 rest maxDistance v2)"

text \<open>Step 3: the vertex farthest from the plane through \<open>v0\<close>, \<open>v1\<close> and \<open>v2\<close>.\<close>

fun find_v3 :: "(nat \<Rightarrow> VertexNode) \<Rightarrow> Plane \<Rightarrow> nat \<Rightarrow> nat \<Rightarrow> nat \<Rightarrow> nat list \<Rightarrow> real \<Rightarrow> nat option
    \<Rightarrow> nat option" where
  "find_v3 vs pl v0 v1 v2 [] maxDistance v3 = v3"
| "find_v3 vs pl v0 v1 v2 (v # rest) maxDistance v3 =
     (if v \<noteq> v0 \<and> v \<noteq> v1 \<and> v \<noteq> v2
      then (let distance = abs (plane_distanceToPoint pl (point (vs v)))
            in if distance > maxDistance then find_v3 vs pl v0 v1 v2 rest distance (Some v)
               else find_v3 vs pl v0 v1 v2 rest maxDistance v3)
      else find_v3 vs pl v0 v1 v2 rest maxDistance v3)"

text \<open>A \<^verbatim>\<open>for\<close> loop whose body may throw.\<close>

fun for_each :: "'a list \<Rightarrow> ('a \<Rightarrow> ConvexHull \<Rightarrow> ConvexHull res) \<Rightarrow> ConvexHull \<Rightarrow> ConvexHull res" where
  "for_each [] body s = Inr s"
| "for_each (x # xs) body s = bind_res (body x s) (for_each xs body)"

text \<open>\<^verbatim>\<open>a.getEdge(i).setTwin(b.getEdge(j))\<close>; the argument is evaluated after the receiver.\<close>

definition join_edges :: "nat \<Rightarrow> int \<Rightarrow> nat \<Rightarrow> int \<Rightarrow> ConvexHull \<Rightarrow> ConvexHull res" where
  "join_edges a i b j s =
     bind_res (getEdge s a i) (\<lambda>ea.
       case ea of
         None \<Rightarrow> Inl (TypeError, s)
       | Some _ \<Rightarrow> bind_res (getEdge s b j) (\<lambda>eb. setTwin ea eb s))"

text \<open>The two stitching loops; \<open>fs\<close> is the local array \<^verbatim>\<open>faces\<close> of four faces.\<close>

definition stitch_below :: "nat list \<Rightarrow> nat \<Rightarrow> ConvexHull \<Rightarrow> ConvexHull res" where
  "stitch_below fs i s =
     (let j = (i + 1) mod 3
      in bind_res (join_edges (fs ! (i + 1)) 2 (fs ! 0) (int j) s)
           (join_edges (fs ! (i + 1)) 1 (fs ! (j + 1)) 0))"

definition stitch_above :: "nat list \<Rightarrow> nat \<Rightarrow> ConvexHull \<Rightarrow> ConvexHull res" where
  "stitch_above fs i s =
     (let j = (i + 1) mod 3
      in bind_res (join_edges (fs ! (i + 1)) 2 (fs ! 0) (int ((3 - i) mod 3)) s)
           (join_edges (fs ! (i + 1)) 0 (fs ! (j + 1)) 1))"

text \<open>Four calls of \<^verbatim>\<open>Face.create\<close>, in the order of the arguments of \<^verbatim>\<open>faces.push\<close>.\<close>

definition create4 :: "(nat \<times> nat \<times> nat) list \<Rightarrow> ConvexHull \<Rightarrow> (ConvexHull \<times> nat list) res" where
  "create4 ts s =
     fold (\<lambda>(a, b, c) r. bind_res r (\<lambda>(s1, fs).
             bind_res (Face_create a b c s1) (\<lambda>(s2, f). Inr (s2, fs @ [f]))))
       ts (Inr (s, []))"

text \<open>The initial assignment: the face among \<^verbatim>\<open>this.faces[0..3]\<close> that sees the vertex best.\<close>

fun max_face4 :: "ConvexHull \<Rightarrow> Vector3 \<Rightarrow> nat list \<Rightarrow> real \<Rightarrow> nat option \<Rightarrow> nat option" where
  "max_face4 s p [] maxDistance maxFace = maxFace"
| "max_face4 s p (j # rest) maxDistance maxFace =
     (let distance = distanceToPoint (fobjs s (faces s ! j)) p
      in if distance > maxDistance then max_face4 s p rest distance (Some (faces s ! j))
         else max_face4 s p rest maxDistance maxFace)"

definition assign_initial :: "nat \<Rightarrow> nat \<Rightarrow> nat \<Rightarrow> nat \<Rightarrow> nat \<Rightarrow> ConvexHull \<Rightarrow> ConvexHull res" where
  "assign_initial v0 v1 v2 v3 v s =
     (if v \<noteq> v0 \<and> v \<noteq> v1 \<and> v \<noteq> v2 \<and> v \<noteq> v3
      then (case max_face4 s (point (vnodes s v)) [0, 1, 2, 3] (tolerance s) None of
              None \<Rightarrow> Inr s
            | Some maxFace \<Rightarrow> addVertexToFace v maxFace s)
      else Inr s)"

definition computeInitialHull :: "ConvexHull \<Rightarrow> ConvexHull res" where
  "computeInitialHull s =
     bind_res (computeExtremes s) (\<lambda>(s1, ex).
       let vs = vnodes s1;
           index = greatest_axis vs ex;
           v0 = minVertices ex ! index;
           v1 = maxVertices ex ! index
       in case find_v2 vs v0 v1 (vertices s1) 0 None of
            None \<Rightarrow> Inl (TypeError, s1)
          | Some v2 \<Rightarrow>
              (let plane = setFromCoplanarPoints (point (vs v0)) (point (vs v1)) (point (vs v2))
               in case find_v3 vs plane v0 v1 v2 (vertices s1) (- 1) None of
                    None \<Rightarrow> Inl (TypeError, s1)
                  | Some v3 \<Rightarrow>
                      bind_res
                        (if plane_distanceToPoint plane (point (vs v3)) < 0
                         then bind_res
                                (create4 [(v0, v1, v2), (v3, v1, v0), (v3, v2, v1), (v3, v0, v2)] s1)
                                (\<lambda>(s2, fs). bind_res (for_each [0, 1, 2] (stitch_below fs) s2)
                                   (\<lambda>s3. Inr (s3, fs)))
                         else bind_res
                                (create4 [(v0, v2, v1), (v3, v0, v1), (v3, v1, v2), (v3, v2, v0)] s1)
                                (\<lambda>(s2, fs). bind_res (for_each [0, 1, 2] (stitch_above fs) s2)
                                   (\<lambda>s3. Inr (s3, fs))))
                        (\<lambda>(s3, fs).
                           let s4 = s3\<lparr>faces := faces s3 @ fs\<rparr>
                           in for_each (vertices s4) (assign_initial v0 v1 v2 v3) s4)))"

section \<open>Growing the hull\<close>

definition reindexFaces :: "ConvexHull \<Rightarrow> ConvexHull" where
  "reindexFaces s = s\<lparr>faces := filter (\<lambda>f. mark (fobjs s f) = Visible) (faces s)\<rparr>"

text \<open>
  The \<^verbatim>\<open>do ... while (vertex !== null && vertex.face === eyeFace)\<close> of \<^verbatim>\<open>nextVertexToAdd\<close>;
  the result \<open>Some None\<close> is an \<^verbatim>\<open>eyeVertex\<close> left \<^verbatim>\<open>undefined\<close>, the result \<open>None\<close> is a loop
  out of fuel.
\<close>

fun farthest_loop :: "nat \<Rightarrow> ConvexHull \<Rightarrow> nat \<Rightarrow> nat \<Rightarrow> real \<Rightarrow> nat option \<Rightarrow> nat option option" where
  "farthest_loop 0 s eyeFace v maxDistance eyeVertex = None"
| "farthest_loop (Suc n) s eyeFace v maxDistance eyeVertex =
     (let distance = distanceToPoint (fobjs s eyeFace) (point (vnodes s v));
          maxDistance' = (if distance > maxDistance then distance else maxDistance);
          eyeVertex' = (if distance > maxDistance then Some v else eyeVertex)
      in case v_next (vnodes s v) of
           None \<Rightarrow> Some eyeVertex'
         | Some w \<Rightarrow>
             if v_face (vnodes s w) = Some eyeFace
             then farthest_loop n s eyeFace w maxDistance' eyeVertex'
             else Some eyeVertex')"

definition nextVertexToAdd :: "nat \<Rightarrow> ConvexHull \<Rightarrow> nat option res" where
  "nextVertexToAdd k s =
     (case list_first Assigned s of
        None \<Rightarrow> Inr None
      | Some first \<Rightarrow>
          (case v_face (vnodes s first) of
             None \<Rightarrow> Inl (TypeError, s)
           | Some eyeFace \<Rightarrow>
               (case outside (fobjs s eyeFace) of
                  None \<Rightarrow> Inl (TypeError, s)
                | Some v \<Rightarrow>
                    (case farthest_loop k s eyeFace v 0 None of
                       None \<Rightarrow> Inl (OutOfFuel, s)
                     | Some eyeVertex \<Rightarrow> Inr eyeVertex))))"

text \<open>
  \<^verbatim>\<open>computeHorizon\<close> and its \<^verbatim>\<open>do ... while (edge !== crossEdge)\<close>. The horizon array is
  threaded with the state. \<open>k\<close> is the fuel of the loops inside \<^verbatim>\<open>deleteFaceVertices\<close>, the
  first argument the fuel of the recursion.
\<close>

fun computeHorizon :: "nat \<Rightarrow> nat \<Rightarrow> Vector3 \<Rightarrow> nat option \<Rightarrow> nat \<Rightarrow> ConvexHull \<times> nat list
    \<Rightarrow> (ConvexHull \<times> nat list) res"
  and horizon_loop :: "nat \<Rightarrow> nat \<Rightarrow> Vector3 \<Rightarrow> nat option \<Rightarrow> nat option \<Rightarrow> ConvexHull \<times> nat list
    \<Rightarrow> (ConvexHull \<times> nat list) res" where
  "computeHorizon 0 k eyePoint crossEdge f sh = Inl (OutOfFuel, fst sh)"
| "computeHorizon (Suc n) k eyePoint crossEdge f sh =
     bind_res (deleteFaceVertices k f None (fst sh)) (\<lambda>s1.
       let s2 = set_mark f Deleted s1
       in case crossEdge of
            None \<Rightarrow>
              bind_res (getEdge s2 f 0) (\<lambda>e. horizon_loop n k eyePoint e e (s2, snd sh))
          | Some c \<Rightarrow> horizon_loop n k eyePoint crossEdge (e_next (hedges s2 c)) (s2, snd sh))"
| "horizon_loop 0 k eyePoint crossEdge e sh = Inl (OutOfFuel, fst sh)"
| "horizon_loop (Suc n) k eyePoint crossEdge e sh =
     (case e of
        None \<Rightarrow> Inl (TypeError, fst sh)
      | Some he \<Rightarrow>
          (case twin (hedges (fst sh) he) of
             None \<Rightarrow> Inl (TypeError, fst sh)
           | Some twinEdge \<Rightarrow>
               (let oppositeFace = e_face (hedges (fst sh) twinEdge)
                in bind_res
                     (if mark (fobjs (fst sh) oppositeFace) = Visible
                      then (if distanceToPoint (fobjs (fst sh) oppositeFace) eyePoint
                                 > tolerance (fst sh)
                            then computeHorizon n k eyePoint (Some twinEdge) oppositeFace sh
                            else Inr (fst sh, snd sh @ [he]))
                      else Inr sh)
                     (\<lambda>sh1. let e1 = e_next (hedges (fst sh1) he)
                            in if e1 \<noteq> crossEdge then horizon_loop n k eyePoint crossEdge e1 sh1
                               else Inr sh1))))"

text \<open>
  \<^verbatim>\<open>addAdjoiningFace\<close> returns the half edge of the new face whose vertex is the eye vertex.
  A horizon edge without a tail makes \<^verbatim>\<open>Face.compute\<close> read \<^verbatim>\<open>point\<close> of \<^verbatim>\<open>null\<close>.
\<close>

definition addAdjoiningFace :: "nat \<Rightarrow> nat \<Rightarrow> ConvexHull \<Rightarrow> (ConvexHull \<times> nat option) res" where
  "addAdjoiningFace eyeVertex horizonEdge s =
     (case he_tail s horizonEdge of
        None \<Rightarrow> Inl (TypeError, s)
      | Some t \<Rightarrow>
          bind_res (Face_create eyeVertex t (he_head s horizonEdge) s) (\<lambda>(s1, f).
            let s2 = s1\<lparr>faces := faces s1 @ [f]\<rparr>
            in bind_res (getEdge s2 f (- 1)) (\<lambda>e2.
                 bind_res (setTwin e2 (twin (hedges s2 horizonEdge)) s2) (\<lambda>s3.
                   bind_res (getEdge s3 f 0) (\<lambda>e0. Inr (s3, e0))))))"

text \<open>The loop of \<^verbatim>\<open>addNewFaces\<close>, with \<^verbatim>\<open>firstSideEdge\<close> and \<^verbatim>\<open>previousSideEdge\<close>.\<close>

fun addNewFaces_loop :: "nat \<Rightarrow> nat list \<Rightarrow> nat option \<Rightarrow> nat option \<Rightarrow> ConvexHull
    \<Rightarrow> (ConvexHull \<times> nat option \<times> nat option) res" where
  "addNewFaces_loop eyeVertex [] firstSideEdge previousSideEdge s =
     Inr (s, firstSideEdge, previousSideEdge)"
| "addNewFaces_loop eyeVertex (horizonEdge # rest) firstSideEdge previousSideEdge s =
     bind_res (addAdjoiningFace eyeVertex horizonEdge s) (\<lambda>(s1, sideEdge).
       case sideEdge of
         None \<Rightarrow> Inl (TypeError, s1)
       | Some se \<Rightarrow>
           bind_res
             (if firstSideEdge = None then Inr (s1, sideEdge)
              else bind_res (setTwin (e_next (hedges s1 se)) previousSideEdge s1)
                     (\<lambda>s2. Inr (s2, firstSideEdge)))
             (\<lambda>(s2, first).
                let s3 = s2\<lparr>newFaces := newFaces s2 @ [e_face (hedges s2 se)]\<rparr>
                in addNewFaces_loop eyeVertex rest first sideEdge s3))"

definition addNewFaces :: "nat \<Rightarrow> nat list \<Rightarrow> ConvexHull \<Rightarrow> ConvexHull res" where
  "addNewFaces eyeVertex horizon s =
     bind_res (addNewFaces_loop eyeVertex horizon None None (s\<lparr>newFaces := []\<rparr>))
       (\<lambda>(s1, firstSideEdge, previousSideEdge).
          case firstSideEdge of
            None \<Rightarrow> Inl (TypeError, s1)
          | Some fe \<Rightarrow> setTwin (e_next (hedges s1 fe)) previousSideEdge s1)"

definition addVertexToHull :: "nat \<Rightarrow> nat \<Rightarrow> ConvexHull \<Rightarrow> ConvexHull res" where
  "addVertexToHull k eyeVertex s =
     (let s1 = list_clear Unassigned s
      in case v_face (vnodes s1 eyeVertex) of
           None \<Rightarrow> Inl (TypeError, s1)
         | Some f \<Rightarrow>
             (let s2 = removeVertexFromFace eyeVertex f s1
              in bind_res (computeHorizon k k (point (vnodes s2 eyeVertex)) None f (s2, []))
                   (\<lambda>(s3, horizon).
                      bind_res (addNewFaces eyeVertex horizon s3)
                        (\<lambda>s4. resolveUnassignedPoints k (newFaces s4) s4))))"

definition cleanup :: "ConvexHull \<Rightarrow> ConvexHull" where
  "cleanup s = (list_clear Unassigned (list_clear Assigned s))\<lparr>newFaces := []\<rparr>"

text \<open>The \<^verbatim>\<open>while ((vertex = this.nextVertexToAdd()) !== undefined)\<close> of \<^verbatim>\<open>compute\<close>.\<close>

fun compute_loop :: "nat \<Rightarrow> nat \<Rightarrow> ConvexHull \<Rightarrow> ConvexHull res" where
  "compute_loop 0 k s = Inl (OutOfFuel, s)"
| "compute_loop (Suc n) k s =
     bind_res (nextVertexToAdd k s) (\<lambda>v.
       case v of
         None \<Rightarrow> Inr s
       | Some eyeVertex \<Rightarrow> bind_res (addVertexToHull k eyeVertex s) (compute_loop n k))"

definition compute :: "nat \<Rightarrow> ConvexHull \<Rightarrow> ConvexHull res" where
  "compute k s =
     bind_res (computeInitialHull s) (\<lambda>s1.
       bind_res (compute_loop k k s1) (\<lambda>s2. Inr (cleanup (reindexFaces s2))))"

text \<open>
  \<^verbatim>\<open>setFromPoints(points)\<close>. The argument is a list, so the check \<^verbatim>\<open>Array.isArray\<close> passes.
  With fewer than four points the source reports on the console and goes on. Each point gets
  a new vertex node. \<open>k\<close> is the fuel of every loop of the model.
\<close>

definition needs_four_points :: string where
  "needs_four_points = ''THREE.ConvexHull: The algorithm needs at least four points.''"

fun push_vertices :: "Vector3 list \<Rightarrow> ConvexHull \<Rightarrow> ConvexHull" where
  "push_vertices [] s = s"
| "push_vertices (p # ps) s =
     push_vertices ps
       (s\<lparr>vnodes := (vnodes s)(n_vnodes s :=
              \<lparr>point = p, v_prev = None, v_next = None, v_face = None\<rparr>),
          vertices := vertices s @ [n_vnodes s],
          n_vnodes := n_vnodes s + 1\<rparr>)"

definition setFromPoints :: "nat \<Rightarrow> Vector3 list \<Rightarrow> ConvexHull \<Rightarrow> ConvexHull res" where
  "setFromPoints k points s =
     (let s1 = (if length points < 4 then s\<lparr>console := console s @ [needs_four_points]\<rparr> else s);
          s2 = makeEmpty s1;
          s3 = push_vertices points s2
      in compute k s3)"

section \<open>Notions of the specification\<close>

text \<open>
  The ray query in the words of the specification: a face rejects the ray when the origin
  is strictly outside its plane and the direction does not move toward the plane; otherwise
  the entry or exit parameter of the face narrows the interval from \<open>tNear\<close> to \<open>tFar\<close>.
\<close>

definition outside_away :: "Face \<Rightarrow> Ray \<Rightarrow> bool" where
  "outside_away f ray \<longleftrightarrow>
     distanceToPoint f (origin ray) > 0 \<and> dot (normal f) (direction ray) \<ge> 0"

definition plane_param :: "Face \<Rightarrow> Ray \<Rightarrow> real" where
  "plane_param f ray =
     (if dot (normal f) (direction ray) \<noteq> 0
      then - distanceToPoint f (origin ray) / dot (normal f) (direction ray) else 0)"

definition narrow_step :: "Face \<Rightarrow> Ray \<Rightarrow> ext \<times> ext \<Rightarrow> ext \<times> ext" where
  "narrow_step f ray iv =
     (let t = plane_param f ray
      in if t \<le> 0 then iv
         else if dot (normal f) (direction ray) > 0 then (fst iv, ext_min (Fin t) (snd iv))
         else (ext_max (Fin t) (fst iv), snd iv))"

fun narrow :: "(nat \<Rightarrow> Face) \<Rightarrow> Ray \<Rightarrow> nat list \<Rightarrow> ext \<times> ext \<Rightarrow> ext \<times> ext" where
  "narrow fs ray [] iv = iv"
| "narrow fs ray (f # rest) iv = narrow fs ray rest (narrow_step (fs f) ray iv)"

definition crossed :: "ext \<times> ext \<Rightarrow> bool" where
  "crossed iv = ext_less (snd iv) (fst iv)"

definition pick :: "ext \<times> ext \<Rightarrow> intersection" where
  "pick iv = (if fst iv \<noteq> MInf then At (fst iv) else At (snd iv))"

text \<open>The coordinates of the point cloud along one axis.\<close>

definition coords :: "ConvexHull \<Rightarrow> (Vector3 \<Rightarrow> real) \<Rightarrow> real set" where
  "coords s c = (\<lambda>v. c (point (vnodes s v))) ` set (vertices s)"

text \<open>A hull with the single face \<open>x \<le> 1\<close>, and a cloud of two points.\<close>

definition half_space :: ConvexHull where
  "half_space =
     new_ConvexHull\<lparr>tolerance := 0, faces := [0],
       fobjs := (fobjs new_ConvexHull)(0 :=
         \<lparr>normal = Vector3 1 0 0, midpoint = Vector3 1 0 0, area = 1, f_constant = 1,
          outside = None, mark = Visible, edge = None\<rparr>)\<rparr>"

definition two_points :: ConvexHull where
  "two_points = push_vertices [Vector3 1 (- 2) 3, Vector3 (- 4) 0 1] new_ConvexHull"

text \<open>The extreme vertices are references into a set of vertices.\<close>

definition ex_in :: "extremes \<Rightarrow> nat set \<Rightarrow> bool" where
  "ex_in ex S \<longleftrightarrow> length (minVertices ex) = 3 \<and> set (minVertices ex) \<subseteq> S \<and>
     length (maxVertices ex) = 3 \<and> set (maxVertices ex) \<subseteq> S"

text \<open>
  A cloud of five points: a tetrahedron with the corners \<open>(0,0,0)\<close>, \<open>(2,0,0)\<close>,
  \<open>(0,-1,0)\<close> and \<open>(0,0,-1)\<close>, and a fifth point just outside the edge from \<open>(0,0,0)\<close> to
  \<open>(2,0,0)\<close>: beyond the face \<open>y = 0\<close> by \<open>12 / 2^51\<close> and above the plane of the face
  \<open>z = 0\<close> by \<open>5 / 2^51\<close>, which is less than the tolerance \<open>3 / 2^50\<close> of this cloud.
\<close>

definition cloud :: "Vector3 list" where
  "cloud = [Vector3 0 0 0, Vector3 2 0 0, Vector3 0 (- 1) 0, Vector3 0 0 (- 1),
            Vector3 1 (12 / 2 ^ 51) (5 / 2 ^ 51)]"


text \<open>
  The assigned ledger as a list: \<open>chain vs p xs\<close> says that following \<^verbatim>\<open>next\<close> from the
  reference \<open>p\<close> visits the vertices \<open>xs\<close> and ends at \<^verbatim>\<open>null\<close>. A vertex is in the outside
  set of the face its \<^verbatim>\<open>face\<close> property names.
\<close>

fun chain :: "(nat \<Rightarrow> VertexNode) \<Rightarrow> nat option \<Rightarrow> nat list \<Rightarrow> bool" where
  "chain vs p [] \<longleftrightarrow> p = None"
| "chain vs p (v # rest) \<longleftrightarrow> p = Some v \<and> chain vs (v_next (vs v)) rest"

definition on_face :: "ConvexHull \<Rightarrow> nat \<Rightarrow> nat \<Rightarrow> bool" where
  "on_face s f v \<longleftrightarrow> v_face (vnodes s v) = Some f"

definition face_distance :: "ConvexHull \<Rightarrow> nat \<Rightarrow> nat \<Rightarrow> real" where
  "face_distance s f v = distanceToPoint (fobjs s f) (point (vnodes s v))"

text \<open>
  The tetrahedron of \<open>cloud\<close> with three more points: vertices 4 and 6 outside the face
  \<open>y = 0\<close> (face 1), at the distances \<open>1 / 4\<close> and \<open>1 / 8\<close>, and vertex 5 outside the face
  \<open>z = 0\<close> (face 0), at the distance \<open>1 / 2\<close>. \<open>simplex7\<close> is the state after
  \<^verbatim>\<open>computeInitialHull\<close>.
\<close>

definition cloud7 :: "Vector3 list" where
  "cloud7 = [Vector3 0 0 0, Vector3 2 0 0, Vector3 0 (- 1) 0, Vector3 0 0 (- 1),
             Vector3 (1 / 2) (1 / 4) (- (1 / 4)), Vector3 (1 / 2) (- (1 / 4)) (1 / 2),
             Vector3 1 (1 / 8) (- (1 / 4))]"

definition simplex7 :: ConvexHull where
  "simplex7 =
     (case computeInitialHull (push_vertices cloud7 (makeEmpty new_ConvexHull)) of
        Inr s \<Rightarrow> s
      | Inl (e, s) \<Rightarrow> s)"

text \<open>A run of the model that stopped for lack of fuel says nothing about the program.\<close>

definition oof :: "'a res \<Rightarrow> bool" where
  "oof r = (case r of Inl (e, s) \<Rightarrow> e = OutOfFuel | Inr x \<Rightarrow> False)"

subsection \<open>The half-edge mesh\<close>

text \<open>
  The fields of a half edge as functions of the state, and the edges of a face: the list
  read from \<^verbatim>\<open>face.edge\<close> by following \<^verbatim>\<open>next\<close> twice. In \<open>cycle3\<close> the three edges of
  the face are different objects, each names the face, and \<^verbatim>\<open>next\<close> of the third is the
  first: \<^verbatim>\<open>edge.next.next.next === edge\<close>.
\<close>

definition nxt :: "ConvexHull \<Rightarrow> nat \<Rightarrow> nat option" where
  "nxt s e = e_next (hedges s e)"

definition twn :: "ConvexHull \<Rightarrow> nat \<Rightarrow> nat option" where
  "twn s e = twin (hedges s e)"

definition efc :: "ConvexHull \<Rightarrow> nat \<Rightarrow> nat" where
  "efc s e = e_face (hedges s e)"

definition face_edges :: "ConvexHull \<Rightarrow> nat \<Rightarrow> nat list" where
  "face_edges s f =
     (case edge (fobjs s f) of
        None \<Rightarrow> []
      | Some e0 \<Rightarrow>
          (case nxt s e0 of
             None \<Rightarrow> [e0]
           | Some e1 \<Rightarrow> (case nxt s e1 of None \<Rightarrow> [e0, e1] | Some e2 \<Rightarrow> [e0, e1, e2])))"

definition cycle3 :: "ConvexHull \<Rightarrow> nat \<Rightarrow> bool" where
  "cycle3 s f \<longleftrightarrow>
     (\<exists>e0 e1 e2. edge (fobjs s f) = Some e0 \<and> nxt s e0 = Some e1 \<and> nxt s e1 = Some e2 \<and>
        nxt s e2 = Some e0 \<and> e0 \<noteq> e1 \<and> e1 \<noteq> e2 \<and> e0 \<noteq> e2 \<and>
        efc s e0 = f \<and> efc s e1 = f \<and> efc s e2 = f \<and>
        e0 < n_hedges s \<and> e1 < n_hedges s \<and> e2 < n_hedges s)"

text \<open>
  The live faces are the faces of \<^verbatim>\<open>this.faces\<close> whose mark is \<^verbatim>\<open>Visible\<close>; deleted faces
  stay in the array until \<^verbatim>\<open>reindexFaces\<close>. An edge is paired when its twin is an edge of
  a face of \<open>L\<close> and the twin of its twin is the edge itself. \<open>hull_inv\<close> is the invariant
  of the builder: every live face is an allocated face with three edges in a cycle, and
  every edge of a live face is paired with an edge of a live face.
\<close>

definition live_faces :: "ConvexHull \<Rightarrow> nat set" where
  "live_faces s = {f \<in> set (faces s). mark (fobjs s f) = Visible}"

definition paired :: "nat set \<Rightarrow> ConvexHull \<Rightarrow> nat \<Rightarrow> bool" where
  "paired L s e \<longleftrightarrow>
     (\<exists>t. twn s e = Some t \<and> twn s t = Some e \<and> efc s t \<in> L \<and> t \<in> set (face_edges s (efc s t)))"

definition mesh_ok :: "nat set \<Rightarrow> ConvexHull \<Rightarrow> bool" where
  "mesh_ok L s \<longleftrightarrow>
     (\<forall>f \<in> L. f < n_fobjs s \<and> cycle3 s f \<and> (\<forall>e \<in> set (face_edges s f). paired L s e))"

definition hull_inv :: "ConvexHull \<Rightarrow> bool" where
  "hull_inv s = mesh_ok (live_faces s) s"

text \<open>
  The invariant in the words of the specification: \<^verbatim>\<open>e.twin.twin === e\<close> for every edge
  of a live face, and \<^verbatim>\<open>edge.next.next.next === edge\<close> for the three edges of a live face.
\<close>

definition twin_involution :: "ConvexHull \<Rightarrow> nat \<Rightarrow> bool" where
  "twin_involution s e \<longleftrightarrow> (\<exists>t. twn s e = Some t \<and> twn s t = Some e)"

definition next_cycle :: "ConvexHull \<Rightarrow> nat \<Rightarrow> bool" where
  "next_cycle s e \<longleftrightarrow> (\<exists>e1 e2. nxt s e = Some e1 \<and> nxt s e1 = Some e2 \<and> nxt s e2 = Some e)"

definition closed_mesh :: "ConvexHull \<Rightarrow> bool" where
  "closed_mesh s \<longleftrightarrow>
     (\<forall>f \<in> live_faces s. length (face_edges s f) = 3 \<and>
        (\<forall>e \<in> set (face_edges s f). twin_involution s e \<and> next_cycle s e))"

text \<open>
  Two states with the same mesh: the half edges and the planes of the faces are the same,
  and with \<open>topo_eq\<close> the marks too. The ledger operations change a state in this way.
\<close>

definition static_eq :: "ConvexHull \<Rightarrow> ConvexHull \<Rightarrow> bool" where
  "static_eq s s' \<longleftrightarrow>
     hedges s' = hedges s \<and> n_hedges s' = n_hedges s \<and> n_fobjs s' = n_fobjs s \<and>
     faces s' = faces s \<and> tolerance s' = tolerance s \<and>
     (\<forall>f. edge (fobjs s' f) = edge (fobjs s f) \<and> normal (fobjs s' f) = normal (fobjs s f) \<and>
          f_constant (fobjs s' f) = f_constant (fobjs s f))"

definition topo_eq :: "ConvexHull \<Rightarrow> ConvexHull \<Rightarrow> bool" where
  "topo_eq s s' \<longleftrightarrow> static_eq s s' \<and> (\<forall>f. mark (fobjs s' f) = mark (fobjs s f))"

text \<open>
  A state after more allocation: the old half edges and faces are as they were, in
  \<open>keeps\<close> but for the twins. \<open>tri s g e\<close> is a face as \<^verbatim>\<open>Face.create\<close> leaves it, with the
  edges \<open>e\<close>, \<open>e + 1\<close> and \<open>e + 2\<close>. \<open>link\<close> is \<^verbatim>\<open>a.setTwin(b)\<close> on two edges, and \<open>c4step\<close> one
  \<^verbatim>\<open>Face.create\<close> of the four of the initial simplex.
\<close>

definition extends :: "ConvexHull \<Rightarrow> ConvexHull \<Rightarrow> bool" where
  "extends s s' \<longleftrightarrow>
     n_hedges s \<le> n_hedges s' \<and> n_fobjs s \<le> n_fobjs s' \<and>
     (\<forall>e < n_hedges s. nxt s' e = nxt s e \<and> efc s' e = efc s e \<and> twn s' e = twn s e) \<and>
     (\<forall>f. f < n_fobjs s \<or> n_fobjs s' \<le> f \<longrightarrow>
        edge (fobjs s' f) = edge (fobjs s f) \<and> mark (fobjs s' f) = mark (fobjs s f))"

definition keeps :: "ConvexHull \<Rightarrow> ConvexHull \<Rightarrow> bool" where
  "keeps s s' \<longleftrightarrow>
     n_hedges s \<le> n_hedges s' \<and> n_fobjs s \<le> n_fobjs s' \<and>
     (\<forall>e < n_hedges s. nxt s' e = nxt s e \<and> efc s' e = efc s e) \<and>
     (\<forall>f. f < n_fobjs s \<or> n_fobjs s' \<le> f \<longrightarrow>
        edge (fobjs s' f) = edge (fobjs s f) \<and> mark (fobjs s' f) = mark (fobjs s f))"

definition tri :: "ConvexHull \<Rightarrow> nat \<Rightarrow> nat \<Rightarrow> bool" where
  "tri s g e \<longleftrightarrow>
     g < n_fobjs s \<and> e + 2 < n_hedges s \<and> edge (fobjs s g) = Some e \<and>
     mark (fobjs s g) = Visible \<and>
     nxt s e = Some (e + 1) \<and> nxt s (e + 1) = Some (e + 2) \<and> nxt s (e + 2) = Some e \<and>
     efc s e = g \<and> efc s (e + 1) = g \<and> efc s (e + 2) = g"

definition link :: "nat \<Rightarrow> nat \<Rightarrow> ConvexHull \<Rightarrow> ConvexHull" where
  "link a b s = set_twin b (Some a) (set_twin a (Some b) s)"

definition c4step :: "nat \<times> nat \<times> nat \<Rightarrow> (ConvexHull \<times> nat list) res \<Rightarrow> (ConvexHull \<times> nat list) res" where
  "c4step = (\<lambda>(a, b, c) r. bind_res r (\<lambda>(s1, fs).
             bind_res (Face_create a b c s1) (\<lambda>(s2, f). Inr (s2, fs @ [f]))))"

text \<open>
  The loop of \<^verbatim>\<open>addNewFaces\<close>. A horizon edge is pending while its new face is missing: it
  is an edge of a face that is not live, and its twin is a live edge that still points
  back to it. The open edges are the two side edges of the fan of new faces that have no
  twin yet: the second edge of the first new face and the first edge of the last one.
  \<open>fan_inv\<close> says that every edge of a live face is paired, or is the twin of a pending
  horizon edge, or is open.
\<close>

definition live_e :: "ConvexHull \<Rightarrow> nat \<Rightarrow> bool" where
  "live_e s e \<longleftrightarrow> efc s e \<in> live_faces s \<and> e \<in> set (face_edges s (efc s e))"

definition pending :: "ConvexHull \<Rightarrow> nat \<Rightarrow> bool" where
  "pending s h \<longleftrightarrow>
     h < n_hedges s \<and> efc s h < n_fobjs s \<and> efc s h \<notin> live_faces s \<and>
     (\<exists>t. twn s h = Some t \<and> twn s t = Some h \<and> live_e s t)"

definition open_edge :: "ConvexHull \<Rightarrow> nat option \<Rightarrow> nat option \<Rightarrow> nat \<Rightarrow> bool" where
  "open_edge s first prev e \<longleftrightarrow>
     (\<exists>fe pe. first = Some fe \<and> prev = Some pe \<and> (nxt s fe = Some e \<or> e = pe))"

definition fan_ends :: "ConvexHull \<Rightarrow> nat option \<Rightarrow> nat option \<Rightarrow> bool" where
  "fan_ends s first prev \<longleftrightarrow>
     (case first of
        None \<Rightarrow> prev = None
      | Some fe \<Rightarrow>
          (\<exists>pe b. prev = Some pe \<and> fe < n_hedges s \<and> nxt s fe = Some b \<and> b \<noteq> pe \<and>
             twn s b = None \<and> twn s pe = None \<and> live_e s b \<and> live_e s pe))"

definition fan_inv :: "ConvexHull \<Rightarrow> nat list \<Rightarrow> nat option \<Rightarrow> nat option \<Rightarrow> bool" where
  "fan_inv s hz first prev \<longleftrightarrow>
     (\<forall>g \<in> live_faces s. g < n_fobjs s \<and> cycle3 s g) \<and> distinct hz \<and>
     (\<forall>h \<in> set hz. pending s h) \<and>
     (\<forall>e. live_e s e \<longrightarrow>
        paired (live_faces s) s e \<or> (\<exists>h \<in> set hz. twn s h = Some e) \<or> open_edge s first prev e) \<and>
     fan_ends s first prev"

text \<open>
  The traversal of \<^verbatim>\<open>computeHorizon\<close>. A face sees the eye point when its distance is above
  the tolerance. The traversal only deletes faces (\<open>grows\<close>); \<open>newly\<close> are the faces deleted
  between two states. \<open>todo s c e\<close> are the edges the loop still visits from \<open>e\<close> until
  \<^verbatim>\<open>edge.next\<close> is the cross edge \<open>c\<close>. \<open>hpost\<close> is what a part of the traversal has done:
  the new horizon edges \<open>new\<close> are distinct edges of newly deleted faces (or of the face
  in work, \<open>T\<close>) whose twin is on a face that does not see the eye point and stays
  visible; every newly deleted face sees the eye point (but the face of \<open>R\<close>, deleted
  without the test), and each of its edges is a horizon edge or has its twin on a deleted
  face (but the cross edge, \<open>X\<close>).
\<close>

definition sees :: "ConvexHull \<Rightarrow> Vector3 \<Rightarrow> nat \<Rightarrow> bool" where
  "sees s p f \<longleftrightarrow> distanceToPoint (fobjs s f) p > tolerance s"

definition grows :: "ConvexHull \<Rightarrow> ConvexHull \<Rightarrow> bool" where
  "grows s s' \<longleftrightarrow>
     static_eq s s' \<and> (\<forall>f. mark (fobjs s f) = Deleted \<longrightarrow> mark (fobjs s' f) = Deleted)"

definition newly :: "ConvexHull \<Rightarrow> ConvexHull \<Rightarrow> nat \<Rightarrow> bool" where
  "newly s s' g \<longleftrightarrow> mark (fobjs s g) = Visible \<and> mark (fobjs s' g) = Deleted"

definition twin_gone :: "ConvexHull \<Rightarrow> ConvexHull \<Rightarrow> nat \<Rightarrow> bool" where
  "twin_gone s' s x \<longleftrightarrow> (\<exists>y. twn s x = Some y \<and> mark (fobjs s' (efc s y)) = Deleted)"

definition todo :: "ConvexHull \<Rightarrow> nat \<Rightarrow> nat \<Rightarrow> nat list" where
  "todo s c e =
     (case nxt s e of
        None \<Rightarrow> [e]
      | Some e1 \<Rightarrow>
          if e1 = c then [e]
          else (case nxt s e1 of
                  None \<Rightarrow> [e, e1]
                | Some e2 \<Rightarrow> if e2 = c then [e, e1] else [e, e1, e2]))"

definition hpost :: "nat set \<Rightarrow> Vector3 \<Rightarrow> ConvexHull \<Rightarrow> ConvexHull \<Rightarrow> nat list \<Rightarrow> nat set
    \<Rightarrow> nat set \<Rightarrow> nat set \<Rightarrow> bool" where
  "hpost L p s s' new T X R \<longleftrightarrow>
     grows s s' \<and> distinct new \<and>
     (\<forall>h \<in> set new. (newly s s' (efc s h) \<or> h \<in> T) \<and> efc s h \<in> L \<and>
        h \<in> set (face_edges s (efc s h)) \<and>
        (\<exists>y. twn s h = Some y \<and> \<not> sees s p (efc s y) \<and> mark (fobjs s' (efc s y)) = Visible)) \<and>
     (\<forall>g. newly s s' g \<longrightarrow> g \<in> L \<and> (g \<in> R \<or> sees s p g) \<and>
        (\<forall>x \<in> set (face_edges s g). x \<in> X \<or> x \<in> set new \<or> twin_gone s' s x)) \<and>
     (\<forall>x \<in> T. x \<in> set new \<or> twin_gone s' s x)"

section \<open>Running the model\<close>

text \<open>
  The model is run on a concrete input by rewriting with its defining equations. The
  continuation of \<open>bind_res\<close> and the body of a \<open>let\<close> are rewritten only once their
  argument is a value.
\<close>

lemmas vec_defs = dot_def subVectors_def addVectors_def multiplyScalar_def cross_def lengthSq_def
  distanceToSquared_def normalize_def clamp_def closestPointToPoint_def setFromCoplanarPoints_def
  plane_distanceToPoint_def triangle_getNormal_def triangle_getMidpoint_def triangle_getArea_def
  getComponent_def setComponent_def distanceToPoint_def

lemmas list_defs = get_list_def set_head_def set_tail_def set_v_prev_def set_v_next_def
  set_v_face_def list_first_def list_isEmpty_def list_clear_def list_insertBefore_def
  list_append_def list_appendChain_def list_remove_def list_removeSubList_def

lemmas face_defs = set_twin_def set_outside_def set_mark_def he_head_def he_tail_def setTwin_def
  getEdge_def Face_compute_def Face_create_def addVertexToFace_def removeVertexFromFace_def
  removeAllVerticesFromFace_def deleteFaceVertices_def resolveUnassignedPoints_def

lemmas init_defs = update_min_def update_max_def extremes_step_def tolerance_of_def
  computeExtremes_def axis_step_def greatest_axis_def join_edges_def stitch_below_def
  stitch_above_def create4_def assign_initial_def computeInitialHull_def

lemma bind_res_cong: "r = r' \<Longrightarrow> bind_res r f = bind_res r' f"
  by simp

lemma bind_res_simps: "bind_res (Inr x) f = f x" "bind_res (Inl e) f = Inl e"
  by (simp_all add: bind_res_def)

lemma Let_weak: "a = b \<Longrightarrow> Let a t = Let b t"
  by simp

lemmas top_defs = reindexFaces_def nextVertexToAdd_def addAdjoiningFace_def addNewFaces_def
  addVertexToHull_def cleanup_def compute_def setFromPoints_def makeEmpty_def
  new_ConvexHull_def bind_res_simps empty_list_def Let_def

text \<open>The equations of the loops for a fuel written as a numeral.\<close>

lemmas fuel_numeral =
  walk_next.simps(2,3)[of _ "pred_numeral n" for n, unfolded numeral_eq_Suc[symmetric]]
  walk_prev.simps(2,3)[of _ "pred_numeral n" for n, unfolded numeral_eq_Suc[symmetric]]
  chain_end.simps(2)[of "pred_numeral n" for n, unfolded numeral_eq_Suc[symmetric]]
  run_end.simps(2)[of "pred_numeral n" for n, unfolded numeral_eq_Suc[symmetric]]
  absorb_loop.simps(2)[of "pred_numeral n" for n, unfolded numeral_eq_Suc[symmetric]]
  resolve_loop.simps(2)[of "pred_numeral n" for n, unfolded numeral_eq_Suc[symmetric]]
  farthest_loop.simps(2)[of "pred_numeral n" for n, unfolded numeral_eq_Suc[symmetric]]
  computeHorizon.simps(2)[of "pred_numeral n" for n, unfolded numeral_eq_Suc[symmetric]]
  horizon_loop.simps(2)[of "pred_numeral n" for n, unfolded numeral_eq_Suc[symmetric]]
  compute_loop.simps(2)[of "pred_numeral n" for n, unfolded numeral_eq_Suc[symmetric]]

lemma sqrt_9: "sqrt 9 = 3"
  by (rule real_sqrt_unique) simp_all

lemmas eval_simps = vec_defs list_defs face_defs init_defs top_defs fuel_numeral sqrt_9
  Number_EPSILON_def

section \<open>Point containment\<close>

lemma containsPoint_loop_iff:
  "containsPoint_loop fs tol p xs \<longleftrightarrow> (\<forall>f \<in> set xs. distanceToPoint (fs f) p \<le> tol)"
  by (induction xs) auto

text \<open>
  C3: \<^verbatim>\<open>containsPoint(p)\<close> is true exactly when every face of the hull has
  \<^verbatim>\<open>distanceToPoint(p)\<close> at most the tolerance.
\<close>

theorem containsPoint_iff:
  "containsPoint s p \<longleftrightarrow>
     (\<forall>f \<in> set (faces s). distanceToPoint (fobjs s f) p \<le> tolerance s)"
  unfolding containsPoint_def by (rule containsPoint_loop_iff)

theorem containsPoint_iff_witness:
  "containsPoint half_space (Vector3 0 0 0) \<and>
   distanceToPoint (fobjs half_space 0) (Vector3 0 0 0) \<le> tolerance half_space \<and>
   \<not> containsPoint half_space (Vector3 2 0 0) \<and>
   distanceToPoint (fobjs half_space 0) (Vector3 2 0 0) > tolerance half_space"
proof -
  have inside: "\<forall>f \<in> set (faces half_space).
      distanceToPoint (fobjs half_space f) (Vector3 0 0 0) \<le> tolerance half_space"
    by (simp add: half_space_def new_ConvexHull_def distanceToPoint_def dot_def)
  have outside: "\<not> (\<forall>f \<in> set (faces half_space).
      distanceToPoint (fobjs half_space f) (Vector3 2 0 0) \<le> tolerance half_space)"
    by (simp add: half_space_def new_ConvexHull_def distanceToPoint_def dot_def)
  have "containsPoint half_space (Vector3 0 0 0)"
    using inside containsPoint_iff [of half_space "Vector3 0 0 0"] by blast
  moreover have "\<not> containsPoint half_space (Vector3 2 0 0)"
    using outside containsPoint_iff [of half_space "Vector3 2 0 0"] by blast
  ultimately show ?thesis
    by (simp add: half_space_def new_ConvexHull_def distanceToPoint_def dot_def)
qed

text \<open>
  C10: on a hull without faces, a new \<^verbatim>\<open>ConvexHull\<close> or one reset by \<^verbatim>\<open>makeEmpty\<close>,
  \<^verbatim>\<open>containsPoint\<close> is true for every point.
\<close>

theorem containsPoint_empty:
  "containsPoint new_ConvexHull p \<and> containsPoint (makeEmpty s) p"
  by (simp add: containsPoint_def new_ConvexHull_def makeEmpty_def)

section \<open>Ray intersection\<close>

lemma intersectRay_loop_step:
  assumes "\<not> crossed (tn, tf)"
  shows "intersectRay_loop fs ray (f # rest) tn tf =
     (if outside_away (fs f) ray then Null
      else if crossed (narrow_step (fs f) ray (tn, tf)) then Null
      else intersectRay_loop fs ray rest (fst (narrow_step (fs f) ray (tn, tf)))
             (snd (narrow_step (fs f) ray (tn, tf))))"
  using assms
  by (simp add: outside_away_def narrow_step_def plane_param_def crossed_def Let_def)

lemma ex_prefix_Cons:
  "(\<exists>n \<le> length (f # rest). P (take n (f # rest))) \<longleftrightarrow>
   P [] \<or> (\<exists>m \<le> length rest. P (f # take m rest))"
proof
  assume "\<exists>n \<le> length (f # rest). P (take n (f # rest))"
  then obtain n where n: "n \<le> length (f # rest)" "P (take n (f # rest))" by blast
  show "P [] \<or> (\<exists>m \<le> length rest. P (f # take m rest))"
  proof (cases n)
    case 0
    with n show ?thesis by simp
  next
    case (Suc m)
    with n have "m \<le> length rest" "P (f # take m rest)" by simp_all
    then show ?thesis by blast
  qed
next
  assume "P [] \<or> (\<exists>m \<le> length rest. P (f # take m rest))"
  then show "\<exists>n \<le> length (f # rest). P (take n (f # rest))"
  proof
    assume "P []"
    then have "P (take 0 (f # rest))" by simp
    then show ?thesis by blast
  next
    assume "\<exists>m \<le> length rest. P (f # take m rest)"
    then obtain m where "m \<le> length rest" "P (f # take m rest)" by blast
    then have "Suc m \<le> length (f # rest)" "P (take (Suc m) (f # rest))" by simp_all
    then show ?thesis by blast
  qed
qed

lemma intersectRay_loop_char:
  "\<not> crossed (tn, tf) \<Longrightarrow>
   intersectRay_loop fs ray xs tn tf =
     (if (\<exists>f \<in> set xs. outside_away (fs f) ray)
         \<or> (\<exists>n \<le> length xs. crossed (narrow fs ray (take n xs) (tn, tf)))
      then Null else pick (narrow fs ray xs (tn, tf)))"
proof (induction xs arbitrary: tn tf)
  case Nil
  then show ?case by (simp add: pick_def)
next
  case (Cons f rest)
  let ?iv = "narrow_step (fs f) ray (tn, tf)"
  have split: "(\<exists>n \<le> length (f # rest). crossed (narrow fs ray (take n (f # rest)) (tn, tf)))
      \<longleftrightarrow> (\<exists>m \<le> length rest. crossed (narrow fs ray (take m rest) ?iv))"
    using Cons.prems ex_prefix_Cons[of f rest "\<lambda>ys. crossed (narrow fs ray ys (tn, tf))"]
    by simp
  note step = intersectRay_loop_step[OF Cons.prems, of fs ray f rest]
  show ?case
  proof (cases "outside_away (fs f) ray")
    case True
    then show ?thesis unfolding step by simp
  next
    case away: False
    show ?thesis
    proof (cases "crossed ?iv")
      case True
      then have "\<exists>m \<le> length rest. crossed (narrow fs ray (take m rest) ?iv)"
        by (intro exI[of _ 0]) simp
      with True away split show ?thesis
        unfolding step by simp
    next
      case False
      then have nc: "\<not> crossed (fst ?iv, snd ?iv)" by simp
      have "intersectRay_loop fs ray (f # rest) tn tf
            = intersectRay_loop fs ray rest (fst ?iv) (snd ?iv)"
        using False away unfolding step by simp
      also have "\<dots> = (if (\<exists>f \<in> set rest. outside_away (fs f) ray)
         \<or> (\<exists>n \<le> length rest. crossed (narrow fs ray (take n rest) ?iv))
         then Null else pick (narrow fs ray rest ?iv))"
        using Cons.IH[OF nc] unfolding prod.collapse .
      finally have E: "intersectRay_loop fs ray (f # rest) tn tf =
         (if (\<exists>f \<in> set rest. outside_away (fs f) ray)
             \<or> (\<exists>n \<le> length rest. crossed (narrow fs ray (take n rest) ?iv))
          then Null else pick (narrow fs ray rest ?iv))" .
      have Q: "(\<exists>g \<in> set (f # rest). outside_away (fs g) ray)
          \<longleftrightarrow> (\<exists>g \<in> set rest. outside_away (fs g) ray)"
        using away by simp
      show ?thesis unfolding split Q narrow.simps by (rule E)
    qed
  qed
qed

text \<open>
  C4 as stated fails: after the loop the source returns the target of \<^verbatim>\<open>ray.at\<close> in every
  case, never \<^verbatim>\<open>null\<close>. On a hull without faces the interval is still
  \<open>(-Infinity, Infinity)\<close> and the result is the target of \<^verbatim>\<open>ray.at(Infinity, target)\<close>.
\<close>

theorem intersectRay_never_null_after_loop:
  "intersectRay new_ConvexHull \<lparr>origin = Vector3 0 0 0, direction = Vector3 1 0 0\<rparr> = At PInf"
  by (simp add: intersectRay_def new_ConvexHull_def)

text \<open>
  C4, amended: \<^verbatim>\<open>intersectRay\<close> returns \<^verbatim>\<open>null\<close> if some face has the origin strictly
  outside its plane with a direction that does not move toward the plane, or if the
  interval narrowed by some prefix of the faces has \<open>tNear > tFar\<close>; otherwise it returns
  the point at \<open>tNear\<close> if \<open>tNear\<close> is not \<open>-Infinity\<close>, else the point at \<open>tFar\<close>, also when
  \<open>tFar\<close> is still \<open>Infinity\<close>.
\<close>

theorem intersectRay_char:
  "intersectRay s ray =
     (if (\<exists>f \<in> set (faces s). outside_away (fobjs s f) ray)
         \<or> (\<exists>n \<le> length (faces s).
               crossed (narrow (fobjs s) ray (take n (faces s)) (MInf, PInf)))
      then Null else pick (narrow (fobjs s) ray (faces s) (MInf, PInf)))"
  unfolding intersectRay_def by (rule intersectRay_loop_char) (simp add: crossed_def)

lemma ex_le_one: "(\<exists>n \<le> Suc 0. P n) \<longleftrightarrow> P 0 \<or> P (Suc 0)"
  by (metis le_Suc_eq le_zero_eq)

theorem intersectRay_char_witness:
  "intersectRay half_space \<lparr>origin = Vector3 3 0 0, direction = Vector3 (- 1) 0 0\<rparr> = At (Fin 2) \<and>
   intersectRay half_space \<lparr>origin = Vector3 3 0 0, direction = Vector3 1 0 0\<rparr> = Null"
  using intersectRay_char [of half_space "\<lparr>origin = Vector3 3 0 0, direction = Vector3 (- 1) 0 0\<rparr>"]
    intersectRay_char [of half_space "\<lparr>origin = Vector3 3 0 0, direction = Vector3 1 0 0\<rparr>"]
  by (simp add: half_space_def new_ConvexHull_def outside_away_def distanceToPoint_def dot_def
      ex_le_one narrow_step_def plane_param_def crossed_def pick_def ext_max_def ext_min_def)

section \<open>The tolerance\<close>

lemma update_min_fields:
  "ex_min (update_min p v j ex)
     = setComponent (ex_min ex) j (min (getComponent p j) (getComponent (ex_min ex) j))"
  "ex_max (update_min p v j ex) = ex_max ex"
  by (cases "ex_min ex"; simp add: update_min_def setComponent_def getComponent_def min_def)+

lemma update_max_fields:
  "ex_max (update_max p v j ex)
     = setComponent (ex_max ex) j (max (getComponent p j) (getComponent (ex_max ex) j))"
  "ex_min (update_max p v j ex) = ex_min ex"
  by (cases "ex_max ex"; simp add: update_max_def setComponent_def getComponent_def max_def)+

lemma extremes_step_min:
  "vx (ex_min (extremes_step vs v ex)) = min (vx (point (vs v))) (vx (ex_min ex))"
  "vy (ex_min (extremes_step vs v ex)) = min (vy (point (vs v))) (vy (ex_min ex))"
  "vz (ex_min (extremes_step vs v ex)) = min (vz (point (vs v))) (vz (ex_min ex))"
  by (simp_all add: extremes_step_def update_min_fields update_max_fields
      setComponent_def getComponent_def)

lemma extremes_step_max:
  "vx (ex_max (extremes_step vs v ex)) = max (vx (point (vs v))) (vx (ex_max ex))"
  "vy (ex_max (extremes_step vs v ex)) = max (vy (point (vs v))) (vy (ex_max ex))"
  "vz (ex_max (extremes_step vs v ex)) = max (vz (point (vs v))) (vz (ex_max ex))"
  by (simp_all add: extremes_step_def update_min_fields update_max_fields
      setComponent_def getComponent_def)

lemma Min_insert_min:
  "finite S \<Longrightarrow> Min (insert (min b a) S) = Min (insert a (insert b S))" for a b :: real
  by (cases "S = {}") (auto simp: min.commute min.left_commute)

lemma Max_insert_max:
  "finite S \<Longrightarrow> Max (insert (max b a) S) = Max (insert a (insert b S))" for a b :: real
  by (cases "S = {}") (auto simp: max.commute max.left_commute)

lemma fold_extremes_min:
  "vx (ex_min (fold (extremes_step vs) xs ex))
     = Min (insert (vx (ex_min ex)) ((\<lambda>v. vx (point (vs v))) ` set xs))"
  "vy (ex_min (fold (extremes_step vs) xs ex))
     = Min (insert (vy (ex_min ex)) ((\<lambda>v. vy (point (vs v))) ` set xs))"
  "vz (ex_min (fold (extremes_step vs) xs ex))
     = Min (insert (vz (ex_min ex)) ((\<lambda>v. vz (point (vs v))) ` set xs))"
  by (induction xs arbitrary: ex) (simp_all add: extremes_step_min Min_insert_min)

lemma fold_extremes_max:
  "vx (ex_max (fold (extremes_step vs) xs ex))
     = Max (insert (vx (ex_max ex)) ((\<lambda>v. vx (point (vs v))) ` set xs))"
  "vy (ex_max (fold (extremes_step vs) xs ex))
     = Max (insert (vy (ex_max ex)) ((\<lambda>v. vy (point (vs v))) ` set xs))"
  "vz (ex_max (fold (extremes_step vs) xs ex))
     = Max (insert (vz (ex_max ex)) ((\<lambda>v. vz (point (vs v))) ` set xs))"
  by (induction xs arbitrary: ex) (simp_all add: extremes_step_max Max_insert_max)

lemma computeExtremes_Inr:
  assumes "vertices s = v0 # rest"
  defines "ex \<equiv> fold (extremes_step (vnodes s)) (vertices s)
     \<lparr>ex_min = point (vnodes s v0), ex_max = point (vnodes s v0),
      minVertices = [v0, v0, v0], maxVertices = [v0, v0, v0]\<rparr>"
  shows "computeExtremes s = Inr (s\<lparr>tolerance := tolerance_of (ex_min ex) (ex_max ex)\<rparr>, ex)"
  unfolding computeExtremes_def ex_def Let_def by (simp only: assms(1) list.case)

lemma computeExtremes_bounds:
  assumes "vertices s = v0 # rest"
  defines "ex \<equiv> fold (extremes_step (vnodes s)) (vertices s)
     \<lparr>ex_min = point (vnodes s v0), ex_max = point (vnodes s v0),
      minVertices = [v0, v0, v0], maxVertices = [v0, v0, v0]\<rparr>"
  shows "vx (ex_min ex) = Min (coords s vx)" "vy (ex_min ex) = Min (coords s vy)"
    "vz (ex_min ex) = Min (coords s vz)" "vx (ex_max ex) = Max (coords s vx)"
    "vy (ex_max ex) = Max (coords s vy)" "vz (ex_max ex) = Max (coords s vz)"
proof -
  have ins: "insert (c (point (vnodes s v0))) (coords s c) = coords s c" for c
    by (auto simp: coords_def assms(1))
  show "vx (ex_min ex) = Min (coords s vx)"
    unfolding ex_def fold_extremes_min using ins[of vx] by (simp add: coords_def)
  show "vy (ex_min ex) = Min (coords s vy)"
    unfolding ex_def fold_extremes_min using ins[of vy] by (simp add: coords_def)
  show "vz (ex_min ex) = Min (coords s vz)"
    unfolding ex_def fold_extremes_min using ins[of vz] by (simp add: coords_def)
  show "vx (ex_max ex) = Max (coords s vx)"
    unfolding ex_def fold_extremes_max using ins[of vx] by (simp add: coords_def)
  show "vy (ex_max ex) = Max (coords s vy)"
    unfolding ex_def fold_extremes_max using ins[of vy] by (simp add: coords_def)
  show "vz (ex_max ex) = Max (coords s vz)"
    unfolding ex_def fold_extremes_max using ins[of vz] by (simp add: coords_def)
qed

text \<open>
  C6: for a cloud with at least one point, \<^verbatim>\<open>computeExtremes\<close> sets the tolerance to
  \<open>3 * EPSILON * (max(|min_x|, |max_x|) + max(|min_y|, |max_y|) + max(|min_z|, |max_z|))\<close>, the
  minima and maxima being those of the coordinates of the cloud. (Without a point the
  source throws, see \<open>computeExtremes_def\<close>.)
\<close>

theorem computeExtremes_tolerance:
  assumes "vertices s \<noteq> []"
  shows "\<exists>s' ex. computeExtremes s = Inr (s', ex) \<and>
           tolerance s' = 3 * Number_EPSILON *
             (max (abs (Min (coords s vx))) (abs (Max (coords s vx)))
            + max (abs (Min (coords s vy))) (abs (Max (coords s vy)))
            + max (abs (Min (coords s vz))) (abs (Max (coords s vz))))"
proof -
  from assms obtain v0 rest where vs: "vertices s = v0 # rest" by (cases "vertices s") auto
  define ex where "ex = fold (extremes_step (vnodes s)) (vertices s)
     \<lparr>ex_min = point (vnodes s v0), ex_max = point (vnodes s v0),
      minVertices = [v0, v0, v0], maxVertices = [v0, v0, v0]\<rparr>"
  define s' where "s' = s\<lparr>tolerance := tolerance_of (ex_min ex) (ex_max ex)\<rparr>"
  have "computeExtremes s = Inr (s', ex)"
    unfolding s'_def ex_def by (rule computeExtremes_Inr[OF vs])
  moreover have "tolerance s' = tolerance_of (ex_min ex) (ex_max ex)"
    unfolding s'_def by simp
  ultimately show ?thesis
    unfolding tolerance_of_def computeExtremes_bounds[OF vs, folded ex_def] by blast
qed

lemma coords_two_points:
  "coords two_points vx = {1, - 4}" "coords two_points vy = {- 2, 0}"
  "coords two_points vz = {3, 1}"
  by (auto simp add: coords_def two_points_def new_ConvexHull_def)

theorem computeExtremes_tolerance_witness:
  "vertices two_points \<noteq> [] \<and>
   (\<exists>s' ex. computeExtremes two_points = Inr (s', ex) \<and>
      tolerance s' = 3 * Number_EPSILON * (4 + 2 + 3))"
proof -
  have ne: "vertices two_points \<noteq> []"
    by (simp add: two_points_def new_ConvexHull_def)
  from computeExtremes_tolerance [OF ne] ne show ?thesis
    by (simp add: coords_two_points)
qed

section \<open>Fewer than four points\<close>

lemma push_vertices_fields:
  "faces (push_vertices ps s) = faces s"
  "console (push_vertices ps s) = console s"
  by (induction ps arbitrary: s; simp)+

lemma upt_shift: "[n ..< Suc (n + m)] = n # [Suc n ..< Suc (n + m)]"
  by (rule upt_conv_Cons) simp

lemma push_vertices_vertices:
  "vertices (push_vertices ps s) = vertices s @ [n_vnodes s ..< n_vnodes s + length ps]"
proof (induction ps arbitrary: s)
  case Nil
  then show ?case by simp
next
  case (Cons p ps)
  show ?case by (simp add: Cons.IH upt_shift del: upt_Suc)
qed

lemma computeExtremes_fields:
  assumes "computeExtremes s = Inr (s1, ex)"
  shows "faces s1 = faces s" "console s1 = console s" "vertices s1 = vertices s"
    "vnodes s1 = vnodes s"
  using assms by (auto simp: computeExtremes_def Let_def split: list.splits)

lemma update_min_in: "ex_in ex S \<Longrightarrow> v \<in> S \<Longrightarrow> ex_in (update_min p v j ex) S"
  using set_update_subset_insert[of "minVertices ex" j v]
  by (auto simp: update_min_def ex_in_def)

lemma update_max_in: "ex_in ex S \<Longrightarrow> v \<in> S \<Longrightarrow> ex_in (update_max p v j ex) S"
  using set_update_subset_insert[of "maxVertices ex" j v]
  by (auto simp: update_max_def ex_in_def)

lemma extremes_step_in: "ex_in ex S \<Longrightarrow> v \<in> S \<Longrightarrow> ex_in (extremes_step vs v ex) S"
  unfolding extremes_step_def by (simp add: update_min_in update_max_in)

lemma fold_extremes_in:
  "ex_in ex S \<Longrightarrow> set xs \<subseteq> S \<Longrightarrow> ex_in (fold (extremes_step vs) xs ex) S"
  by (induction xs arbitrary: ex) (simp_all add: extremes_step_in)

lemma computeExtremes_in:
  assumes "computeExtremes s = Inr (s1, ex)"
  shows "ex_in ex (set (vertices s))"
proof -
  from assms obtain v0 rest where vs: "vertices s = v0 # rest"
    by (cases "vertices s") (auto simp: computeExtremes_def)
  have "ex_in \<lparr>ex_min = point (vnodes s v0), ex_max = point (vnodes s v0),
      minVertices = [v0, v0, v0], maxVertices = [v0, v0, v0]\<rparr> (set (vertices s))"
    by (simp add: ex_in_def vs)
  from fold_extremes_in[OF this subset_refl] assms show ?thesis
    by (auto simp: computeExtremes_def vs Let_def)
qed

lemma greatest_axis_lt: "greatest_axis vs ex < 3"
  by (simp add: greatest_axis_def axis_step_def Let_def)

lemma find_v2_result:
  "find_v2 vs v0 v1 xs m acc = Some v \<Longrightarrow>
   acc = Some v \<or> (v \<in> set xs \<and> v \<noteq> v0 \<and> v \<noteq> v1)"
  by (induction xs arbitrary: m acc) (auto simp: Let_def split: if_splits option.splits)

lemma find_v3_result:
  "find_v3 vs pl v0 v1 v2 xs m acc = Some v \<Longrightarrow>
   acc = Some v \<or> (v \<in> set xs \<and> v \<noteq> v0 \<and> v \<noteq> v1 \<and> v \<noteq> v2)"
  by (induction xs arbitrary: m acc) (auto simp: Let_def split: if_splits)

lemma closestPointToPoint_same: "closestPointToPoint p p q = None"
  by (simp add: closestPointToPoint_def subVectors_def dot_def)

lemma find_v2_same: "find_v2 vs v v xs m acc = acc"
  by (induction xs arbitrary: m acc) (simp_all add: closestPointToPoint_same)

lemma four_distinct:
  assumes "distinct xs" "length xs < 4"
    "v0 \<in> set xs" "v1 \<in> set xs" "v2 \<in> set xs" "v3 \<in> set xs"
    "v0 \<noteq> v1" "v2 \<noteq> v0" "v2 \<noteq> v1" "v3 \<noteq> v0" "v3 \<noteq> v1" "v3 \<noteq> v2"
  shows False
proof -
  have "{v0, v1, v2, v3} \<subseteq> set xs" using assms by simp
  then have "card {v0, v1, v2, v3} \<le> card (set xs)" by (intro card_mono) simp_all
  moreover have "card {v0, v1, v2, v3} = 4" using assms by simp
  moreover have "card (set xs) = length xs" using assms(1) by (simp add: distinct_card)
  ultimately show False using assms(2) by simp
qed

lemma computeInitialHull_no_extremes:
  assumes "computeExtremes s = Inl e"
  shows "computeInitialHull s = Inl e"
  unfolding computeInitialHull_def by (simp only: assms bind_res_simps)

lemma computeInitialHull_no_v2:
  assumes "computeExtremes s = Inr (s1, ex)"
    and "find_v2 (vnodes s1) (minVertices ex ! greatest_axis (vnodes s1) ex)
           (maxVertices ex ! greatest_axis (vnodes s1) ex) (vertices s1) 0 None = None"
  shows "computeInitialHull s = Inl (TypeError, s1)"
  unfolding computeInitialHull_def
  by (simp only: assms bind_res_simps prod.case Let_def option.case)

lemma computeInitialHull_no_v3:
  assumes "computeExtremes s = Inr (s1, ex)"
    and "find_v2 (vnodes s1) (minVertices ex ! greatest_axis (vnodes s1) ex)
           (maxVertices ex ! greatest_axis (vnodes s1) ex) (vertices s1) 0 None = Some v2"
    and "find_v3 (vnodes s1)
           (setFromCoplanarPoints
              (point (vnodes s1 (minVertices ex ! greatest_axis (vnodes s1) ex)))
              (point (vnodes s1 (maxVertices ex ! greatest_axis (vnodes s1) ex)))
              (point (vnodes s1 v2)))
           (minVertices ex ! greatest_axis (vnodes s1) ex)
           (maxVertices ex ! greatest_axis (vnodes s1) ex) v2 (vertices s1) (- 1) None = None"
  shows "computeInitialHull s = Inl (TypeError, s1)"
  unfolding computeInitialHull_def
  by (simp only: assms bind_res_simps prod.case Let_def option.case)

text \<open>
  With fewer than four vertices the initial simplex cannot be found: the source reads
  \<^verbatim>\<open>point\<close> of a vertex that is \<^verbatim>\<open>undefined\<close>.
\<close>

lemma computeInitialHull_few:
  assumes "distinct (vertices s)" "length (vertices s) < 4"
  shows "\<exists>s1. computeInitialHull s = Inl (TypeError, s1) \<and> faces s1 = faces s
           \<and> console s1 = console s"
proof (cases "computeExtremes s")
  case (Inl e)
  then have "e = (TypeError, s)"
    by (auto simp: computeExtremes_def Let_def split: list.splits)
  with computeInitialHull_no_extremes[OF Inl] show ?thesis by simp
next
  case (Inr r)
  obtain s1 ex where r: "r = (s1, ex)" by (cases r)
  note ce = Inr[unfolded r]
  note f = computeExtremes_fields[OF ce]
  define v0 where "v0 = minVertices ex ! greatest_axis (vnodes s1) ex"
  define v1 where "v1 = maxVertices ex ! greatest_axis (vnodes s1) ex"
  have in01: "v0 \<in> set (vertices s)" "v1 \<in> set (vertices s)"
    using computeExtremes_in[OF ce] greatest_axis_lt[of "vnodes s1" ex]
    unfolding ex_in_def v0_def v1_def by (metis nth_mem subsetD)+
  show ?thesis
  proof (cases "find_v2 (vnodes s1) v0 v1 (vertices s1) 0 None")
    case None
    from computeInitialHull_no_v2[OF ce None[unfolded v0_def v1_def]] f show ?thesis by simp
  next
    case (Some v2)
    from find_v2_result[OF Some] have v2: "v2 \<in> set (vertices s)" "v2 \<noteq> v0" "v2 \<noteq> v1"
      by (simp_all add: f)
    have ne: "v0 \<noteq> v1"
      using Some find_v2_same[of "vnodes s1" v0 "vertices s1" 0 None] by auto
    define pl where "pl = setFromCoplanarPoints (point (vnodes s1 v0)) (point (vnodes s1 v1))
      (point (vnodes s1 v2))"
    have "find_v3 (vnodes s1) pl v0 v1 v2 (vertices s1) (- 1) None = None"
    proof (cases "find_v3 (vnodes s1) pl v0 v1 v2 (vertices s1) (- 1) None")
      case None
      then show ?thesis .
    next
      case (Some v3)
      from find_v3_result[OF Some]
      have "v3 \<in> set (vertices s)" "v3 \<noteq> v0" "v3 \<noteq> v1" "v3 \<noteq> v2"
        by (simp_all add: f)
      with four_distinct[OF assms in01 v2(1) this(1) ne v2(2,3)] show ?thesis by blast
    qed
    from computeInitialHull_no_v3[OF ce Some[unfolded v0_def v1_def]
        this[unfolded pl_def v0_def v1_def]] f
    show ?thesis by simp
  qed
qed

text \<open>
  C1: with fewer than four points \<^verbatim>\<open>setFromPoints\<close> reports on the console that the
  algorithm needs at least four points, and then goes on: it fails with the \<^verbatim>\<open>TypeError\<close>
  of the initial simplex, not with an error for the invalid input. No hull is returned and
  the face list of the object is empty.
\<close>

theorem setFromPoints_few_points:
  assumes "length points < 4"
  shows "\<exists>s'. setFromPoints k points s = Inl (TypeError, s') \<and> faces s' = []
           \<and> console s' = console s @ [needs_four_points]"
proof -
  define s3 where
    "s3 = push_vertices points (makeEmpty (s\<lparr>console := console s @ [needs_four_points]\<rparr>))"
  have v: "vertices s3 = [n_vnodes s ..< n_vnodes s + length points]"
    and fc: "faces s3 = []" "console s3 = console s @ [needs_four_points]"
    by (simp_all add: s3_def push_vertices_fields push_vertices_vertices makeEmpty_def)
  have "distinct (vertices s3)" "length (vertices s3) < 4" using assms by (simp_all add: v)
  from computeInitialHull_few[OF this] fc
  obtain s1 where "computeInitialHull s3 = Inl (TypeError, s1)" "faces s1 = []"
    "console s1 = console s @ [needs_four_points]" by auto
  then show ?thesis using assms
    by (simp add: setFromPoints_def compute_def bind_res_simps Let_def s3_def
        cong: bind_res_cong)
qed

theorem setFromPoints_few_points_witness:
  "length [Vector3 0 0 0, Vector3 1 0 0, Vector3 0 1 0] < 4 \<and>
   (\<exists>s'. setFromPoints 5 [Vector3 0 0 0, Vector3 1 0 0, Vector3 0 1 0] new_ConvexHull
            = Inl (TypeError, s') \<and> faces s' = [] \<and> console s' = [needs_four_points])"
proof -
  have few: "length [Vector3 0 0 0, Vector3 1 0 0, Vector3 0 1 0] < 4" by simp
  from setFromPoints_few_points [OF few, of 5 new_ConvexHull] few show ?thesis
    by (simp add: new_ConvexHull_def)
qed

section \<open>Degenerate input\<close>










section \<open>Containment of the input points\<close>

lemma sqrt_169: "sqrt (169 / 1267650600228229401496703205376) = 13 / 1125899906842624"
proof -
  have "169 / 1267650600228229401496703205376 = (13 / 1125899906842624 :: real)\<^sup>2"
    by (simp add: power2_eq_square)
  then show ?thesis by (simp only: real_sqrt_abs)
qed

text \<open>
  The build of \<open>cloud\<close>: the tetrahedron of the first four points is the initial simplex,
  the fifth point is assigned to the face \<open>y = 0\<close> (face 1) and added. Face 0, in the plane
  \<open>z = 0\<close>, has the point within the tolerance and is kept; face 6 is the new face over
  the edge shared with face 0.
\<close>

lemma cloud_eval:
  "case setFromPoints 5 cloud new_ConvexHull of
     Inl _ \<Rightarrow> False
   | Inr h \<Rightarrow> faces h = [0, 2, 3, 4, 5, 6] \<and> tolerance h = 3 / 2 ^ 50 \<and>
       normal (fobjs h 6) = Vector3 0 (- (5 / 13)) (12 / 13) \<and> f_constant (fobjs h 6) = 0"
  by (simp add: cloud_def eval_simps sqrt_169 cong: bind_res_cong Let_weak)

text \<open>
  C5 fails on \<open>cloud\<close>: the build returns a hull, and the input point \<open>(0, -1, 0)\<close> is
  not contained in it. Its distance to face 6 is \<open>5 / 13\<close>.
\<close>

theorem containment_fails:
  "\<exists>h. setFromPoints 5 cloud new_ConvexHull = Inr h \<and> \<not> containsPoint h (Vector3 0 (- 1) 0)"
proof (cases "setFromPoints 5 cloud new_ConvexHull")
  case (Inl e)
  with cloud_eval show ?thesis by simp
next
  case (Inr h)
  with cloud_eval have h: "faces h = [0, 2, 3, 4, 5, 6]" "tolerance h = 3 / 2 ^ 50"
    "normal (fobjs h 6) = Vector3 0 (- (5 / 13)) (12 / 13)" "f_constant (fobjs h 6) = 0"
    by simp_all
  have "distanceToPoint (fobjs h 6) (Vector3 0 (- 1) 0) > tolerance h"
    by (simp add: distanceToPoint_def dot_def h)
  moreover have "6 \<in> set (faces h)" by (simp add: h)
  ultimately have "\<not> containsPoint h (Vector3 0 (- 1) 0)"
    unfolding containsPoint_def containsPoint_loop_iff by force
  with Inr show ?thesis by blast
qed

section \<open>The eye vertex\<close>

lemma farthest_loop_spec:
  assumes "chain (vnodes s) (v_next (vnodes s v)) rest"
    and "length (takeWhile (on_face s f) rest) < n"
  shows "\<exists>r. farthest_loop n s f v m acc = Some r \<and>
           ((r = acc \<and> (\<forall>w \<in> set (v # takeWhile (on_face s f) rest). face_distance s f w \<le> m))
            \<or> (\<exists>u. r = Some u \<and> u \<in> set (v # takeWhile (on_face s f) rest)
                  \<and> m < face_distance s f u
                  \<and> (\<forall>w \<in> set (v # takeWhile (on_face s f) rest).
                         face_distance s f w \<le> face_distance s f u)))"
  using assms
proof (induction rest arbitrary: v m acc n)
  case Nil
  then obtain n' where n: "n = Suc n'" by (cases n) auto
  from Nil have nx: "v_next (vnodes s v) = None" by simp
  show ?case
    by (cases "m < face_distance s f v")
      (simp_all add: n nx face_distance_def Let_def)
next
  case (Cons w rest)
  then obtain n' where n: "n = Suc n'" by (cases n) auto
  from Cons.prems have nx: "v_next (vnodes s v) = Some w"
    and ch: "chain (vnodes s) (v_next (vnodes s w)) rest" by simp_all
  let ?d = "face_distance s f v"
  let ?m = "if m < ?d then ?d else m"
  let ?acc = "if m < ?d then Some v else acc"
  show ?case
  proof (cases "on_face s f w")
    case False
    then show ?thesis
      by (cases "m < ?d")
        (simp_all add: n nx face_distance_def on_face_def Let_def)
  next
    case True
    with Cons.prems(2) have len: "length (takeWhile (on_face s f) rest) < n'"
      by (simp add: n)
    have step: "farthest_loop n s f v m acc = farthest_loop n' s f w ?m ?acc"
      using True by (simp add: n nx face_distance_def on_face_def Let_def)
    from Cons.IH[OF ch len, of ?m ?acc] obtain r where
      r: "farthest_loop n' s f w ?m ?acc = Some r"
      and alt: "(r = ?acc \<and> (\<forall>x \<in> set (w # takeWhile (on_face s f) rest). face_distance s f x \<le> ?m))
            \<or> (\<exists>u. r = Some u \<and> u \<in> set (w # takeWhile (on_face s f) rest)
                  \<and> ?m < face_distance s f u
                  \<and> (\<forall>x \<in> set (w # takeWhile (on_face s f) rest).
                         face_distance s f x \<le> face_distance s f u))"
      by blast
    have tw: "takeWhile (on_face s f) (w # rest) = w # takeWhile (on_face s f) rest"
      using True by simp
    from alt show ?thesis
    proof
      assume a: "r = ?acc \<and> (\<forall>x \<in> set (w # takeWhile (on_face s f) rest). face_distance s f x \<le> ?m)"
      show ?thesis
      proof (cases "m < ?d")
        case True
        with a show ?thesis unfolding step r tw by (intro exI[of _ r]) auto
      next
        case False
        with a show ?thesis unfolding step r tw by (intro exI[of _ r]) auto
      qed
    next
      assume "\<exists>u. r = Some u \<and> u \<in> set (w # takeWhile (on_face s f) rest)
                  \<and> ?m < face_distance s f u
                  \<and> (\<forall>x \<in> set (w # takeWhile (on_face s f) rest).
                         face_distance s f x \<le> face_distance s f u)"
      then obtain u where u: "r = Some u" "u \<in> set (w # takeWhile (on_face s f) rest)"
        "?m < face_distance s f u"
        "\<forall>x \<in> set (w # takeWhile (on_face s f) rest). face_distance s f x \<le> face_distance s f u"
        by blast
      have "m < face_distance s f u" "?d \<le> face_distance s f u"
        using u(3) by (auto split: if_splits)
      with u show ?thesis unfolding step r tw by (intro exI[of _ r]) auto
    qed
  qed
qed

text \<open>
  C8: when the assigned ledger is not empty, let \<open>f\<close> be the face of its first entry. The
  ledger is taken as the builder keeps it: \<open>f.outside\<close> is that first entry, the vertices
  of \<open>f\<close> are one run at the front, and an assigned vertex is above its face. Then
  \<^verbatim>\<open>nextVertexToAdd\<close> returns a vertex of the outside set of \<open>f\<close> whose distance to \<open>f\<close> is
  the greatest among the vertices assigned to \<open>f\<close>. Vertices of other faces are not looked
  at.
\<close>

theorem nextVertexToAdd_farthest:
  assumes "chain (vnodes s) (l_head (assigned s)) (first # rest)"
    and "v_face (vnodes s first) = Some f"
    and "outside (fobjs s f) = Some first"
    and "\<forall>v \<in> set (dropWhile (on_face s f) rest). \<not> on_face s f v"
    and "\<forall>v \<in> set (first # rest). on_face s f v \<longrightarrow> 0 < face_distance s f v"
    and "length rest < k"
  shows "\<exists>v. nextVertexToAdd k s = Inr (Some v) \<and> v \<in> set (first # rest) \<and> on_face s f v
           \<and> (\<forall>w \<in> set (first # rest). on_face s f w \<longrightarrow>
                  face_distance s f w \<le> face_distance s f v)"
proof -
  let ?run = "first # takeWhile (on_face s f) rest"
  from assms(1) have hd: "l_head (assigned s) = Some first"
    and ch: "chain (vnodes s) (v_next (vnodes s first)) rest" by simp_all
  have len: "length (takeWhile (on_face s f) rest) < k"
    using assms(6) length_takeWhile_le[of "on_face s f" rest] by simp
  have of: "on_face s f first" using assms(2) by (simp add: on_face_def)
  have run_on: "\<forall>v \<in> set ?run. on_face s f v"
    using of by (auto dest: set_takeWhileD)
  have run_all: "w \<in> set ?run" if "w \<in> set (first # rest)" "on_face s f w" for w
  proof -
    have "set rest = set (takeWhile (on_face s f) rest) \<union> set (dropWhile (on_face s f) rest)"
      by (metis set_append takeWhile_dropWhile_id)
    with that assms(4) show ?thesis by auto
  qed
  from farthest_loop_spec[OF ch len, of 0 None] obtain r where
    r: "farthest_loop k s f first 0 None = Some r"
    and alt: "(r = None \<and> (\<forall>w \<in> set ?run. face_distance s f w \<le> 0))
            \<or> (\<exists>u. r = Some u \<and> u \<in> set ?run \<and> 0 < face_distance s f u
                  \<and> (\<forall>w \<in> set ?run. face_distance s f w \<le> face_distance s f u))"
    by blast
  have nv: "nextVertexToAdd k s = Inr r"
    by (simp add: nextVertexToAdd_def list_first_def get_list_def hd assms(2,3) r)
  from alt show ?thesis
  proof
    assume "r = None \<and> (\<forall>w \<in> set ?run. face_distance s f w \<le> 0)"
    with assms(5) of show ?thesis by force
  next
    assume "\<exists>u. r = Some u \<and> u \<in> set ?run \<and> 0 < face_distance s f u
                  \<and> (\<forall>w \<in> set ?run. face_distance s f w \<le> face_distance s f u)"
    then obtain u where u: "r = Some u" "u \<in> set ?run"
      "\<forall>w \<in> set ?run. face_distance s f w \<le> face_distance s f u" by blast
    have "u \<in> set (first # rest)" using u(2) by (auto dest: set_takeWhileD)
    moreover have "on_face s f u" using run_on u(2) by blast
    moreover have "\<forall>w \<in> set (first # rest). on_face s f w \<longrightarrow>
                  face_distance s f w \<le> face_distance s f u"
      using run_all u(3) by blast
    ultimately show ?thesis using nv u(1) by blast
  qed
qed

lemma simplex7_run:
  "case computeInitialHull (push_vertices cloud7 (makeEmpty new_ConvexHull)) of
     Inl _ \<Rightarrow> False
   | Inr s \<Rightarrow>
       l_head (assigned s) = Some 6 \<and>
       v_next (vnodes s 6) = Some 4 \<and> v_next (vnodes s 4) = Some 5 \<and>
       v_next (vnodes s 5) = None \<and>
       v_face (vnodes s 6) = Some 1 \<and> v_face (vnodes s 4) = Some 1 \<and>
       v_face (vnodes s 5) = Some 0 \<and> outside (fobjs s 1) = Some 6 \<and>
       face_distance s 1 6 = 1 / 8 \<and> face_distance s 1 4 = 1 / 4 \<and>
       face_distance s 0 5 = 1 / 2"
  by (simp add: cloud7_def face_distance_def eval_simps cong: bind_res_cong Let_weak)

lemma simplex7_eval:
  "l_head (assigned simplex7) = Some 6 \<and>
   v_next (vnodes simplex7 6) = Some 4 \<and> v_next (vnodes simplex7 4) = Some 5 \<and>
   v_next (vnodes simplex7 5) = None \<and>
   v_face (vnodes simplex7 6) = Some 1 \<and> v_face (vnodes simplex7 4) = Some 1 \<and>
   v_face (vnodes simplex7 5) = Some 0 \<and> outside (fobjs simplex7 1) = Some 6 \<and>
   face_distance simplex7 1 6 = 1 / 8 \<and> face_distance simplex7 1 4 = 1 / 4 \<and>
   face_distance simplex7 0 5 = 1 / 2"
  using simplex7_run unfolding simplex7_def
  by (cases "computeInitialHull (push_vertices cloud7 (makeEmpty new_ConvexHull))") simp_all

theorem nextVertexToAdd_farthest_witness:
  "chain (vnodes simplex7) (l_head (assigned simplex7)) [6, 4, 5] \<and>
   v_face (vnodes simplex7 6) = Some 1 \<and> outside (fobjs simplex7 1) = Some 6 \<and>
   nextVertexToAdd 5 simplex7 = Inr (Some 4) \<and>
   face_distance simplex7 1 6 = 1 / 8 \<and> face_distance simplex7 1 4 = 1 / 4 \<and>
   face_distance simplex7 0 5 = 1 / 2"
proof -
  note e = simplex7_eval
  have ch: "chain (vnodes simplex7) (l_head (assigned simplex7)) (6 # [4, 5])"
    using e by simp
  have on: "on_face simplex7 1 6" "on_face simplex7 1 4" "\<not> on_face simplex7 1 5"
    using e by (simp_all add: on_face_def)
  have cont: "\<forall>v \<in> set (dropWhile (on_face simplex7 1) [4, 5]). \<not> on_face simplex7 1 v"
    using on by simp
  have pos: "\<forall>v \<in> set (6 # [4, 5]). on_face simplex7 1 v \<longrightarrow> 0 < face_distance simplex7 1 v"
    using e on by simp
  have len: "length [4, 5 :: nat] < 5" by simp
  from nextVertexToAdd_farthest [OF ch _ _ cont pos len] e
  obtain v where v: "nextVertexToAdd 5 simplex7 = Inr (Some v)" "v \<in> set (6 # [4, 5])"
    "on_face simplex7 1 v"
    "\<forall>w \<in> set (6 # [4, 5]). on_face simplex7 1 w \<longrightarrow>
       face_distance simplex7 1 w \<le> face_distance simplex7 1 v"
    by blast
  from v(4) on(2) have "face_distance simplex7 1 4 \<le> face_distance simplex7 1 v" by simp
  with v(2,3) on(3) e have "v = 4" by auto
  with v(1) ch e show ?thesis by simp
qed

section \<open>Determinism\<close>

lemma oof_simps [simp]: "oof (Inr x) = False" "oof (Inl (e, s)) = (e = OutOfFuel)"
  by (simp_all add: oof_def)






















lemma compute_settled:
  assumes "compute k s = Inr h"
  shows "assigned h = empty_list" "unassigned h = empty_list" "newFaces h = []"
  using assms
  by (auto simp: compute_def bind_res_def cleanup_def list_clear_def set_head_def set_tail_def
      empty_list_def split: sum.splits)



section \<open>The twins and the cycles of the mesh\<close>

text \<open>
  The invariant \<open>hull_inv\<close> is set up by \<^verbatim>\<open>computeInitialHull\<close> and kept by
  \<^verbatim>\<open>addVertexToHull\<close>: the traversal of \<^verbatim>\<open>computeHorizon\<close> leaves a horizon whose edges
  are exactly the dead edges with a live twin, and \<^verbatim>\<open>addNewFaces\<close> gives each of these
  twins a new partner and joins the side edges of the new faces in a ring.
\<close>

lemma static_eq_refl [simp]: "static_eq s s"
  by (simp add: static_eq_def)

lemma topo_eq_refl [simp]: "topo_eq s s"
  by (simp add: topo_eq_def)

lemma static_eq_trans: "static_eq s s' \<Longrightarrow> static_eq s' s'' \<Longrightarrow> static_eq s s''"
  by (simp add: static_eq_def)

lemma topo_eq_trans: "topo_eq s s' \<Longrightarrow> topo_eq s' s'' \<Longrightarrow> topo_eq s s''"
  by (auto simp: topo_eq_def intro: static_eq_trans)

lemma topo_eq_static: "topo_eq s s' \<Longrightarrow> static_eq s s'"
  by (simp add: topo_eq_def)

lemma static_eq_views:
  assumes "static_eq s s'"
  shows "nxt s' = nxt s" "twn s' = twn s" "efc s' = efc s" "face_edges s' = face_edges s"
    "cycle3 s' = cycle3 s" "faces s' = faces s" "n_hedges s' = n_hedges s"
    "n_fobjs s' = n_fobjs s" "tolerance s' = tolerance s"
    "distanceToPoint (fobjs s' f) p = distanceToPoint (fobjs s f) p"
    "edge (fobjs s' f) = edge (fobjs s f)"
proof -
  from assms have h: "hedges s' = hedges s"
    and e: "\<And>f. edge (fobjs s' f) = edge (fobjs s f)"
    and n: "n_hedges s' = n_hedges s"
    by (simp_all add: static_eq_def)
  show nx: "nxt s' = nxt s" by (simp add: nxt_def fun_eq_iff h)
  show "twn s' = twn s" by (simp add: twn_def fun_eq_iff h)
  show ef: "efc s' = efc s" by (simp add: efc_def fun_eq_iff h)
  show "face_edges s' = face_edges s"
  proof
    fix f show "face_edges s' f = face_edges s f" unfolding face_edges_def nx e ..
  qed
  show "cycle3 s' = cycle3 s" by (simp add: cycle3_def fun_eq_iff nx ef e n)
  show "faces s' = faces s" "n_hedges s' = n_hedges s" "n_fobjs s' = n_fobjs s"
    "tolerance s' = tolerance s" "edge (fobjs s' f) = edge (fobjs s f)"
    using assms by (simp_all add: static_eq_def)
  show "distanceToPoint (fobjs s' f) p = distanceToPoint (fobjs s f) p"
    using assms by (simp add: static_eq_def distanceToPoint_def)
qed

lemma static_eq_mesh:
  assumes "static_eq s s'"
  shows "paired L s' = paired L s" "mesh_ok L s' = mesh_ok L s"
proof -
  show p: "paired L s' = paired L s" for L
    by (simp add: paired_def fun_eq_iff static_eq_views[OF assms])
  show "mesh_ok L s' = mesh_ok L s"
    by (simp add: mesh_ok_def static_eq_views[OF assms] p)
qed

lemma topo_eq_views:
  assumes "topo_eq s s'"
  shows "live_faces s' = live_faces s" "hull_inv s' = hull_inv s"
    "mark (fobjs s' f) = mark (fobjs s f)"
proof -
  from assms have st: "static_eq s s'" and mk: "\<And>f. mark (fobjs s' f) = mark (fobjs s f)"
    by (simp_all add: topo_eq_def)
  show l: "live_faces s' = live_faces s"
    by (simp add: live_faces_def mk static_eq_views[OF st])
  show "hull_inv s' = hull_inv s" by (simp add: hull_inv_def l static_eq_mesh[OF st])
  show "mark (fobjs s' f) = mark (fobjs s f)" by (rule mk)
qed

text \<open>The operations on the vertex lists leave the mesh alone.\<close>

lemma topo_eq_setters [simp]:
  "topo_eq s (set_head l h s)" "topo_eq s (set_tail l h s)"
  "topo_eq s (set_v_prev v p s)" "topo_eq s (set_v_next v p s)" "topo_eq s (set_v_face v q s)"
  "topo_eq s (set_outside f p s)"
  by (simp_all add: topo_eq_def static_eq_def set_head_def set_tail_def set_v_prev_def
      set_v_next_def set_v_face_def set_outside_def split: ledger.splits)

lemma topo_eq_step: "topo_eq s s' \<Longrightarrow> topo_eq s' s'' \<Longrightarrow> topo_eq s s''"
  by (rule topo_eq_trans)

lemma topo_eq_list_ops [simp]:
  "topo_eq s (list_clear l s)" "topo_eq s (list_insertBefore l t v s)"
  "topo_eq s (list_remove l v s)" "topo_eq s (list_removeSubList l a b s)"
  unfolding list_clear_def list_insertBefore_def list_remove_def list_removeSubList_def Let_def
  by (auto intro!: topo_eq_trans[OF _ topo_eq_setters(1)] topo_eq_trans[OF _ topo_eq_setters(2)]
      topo_eq_trans[OF _ topo_eq_setters(3)] topo_eq_trans[OF _ topo_eq_setters(4)]
      split: option.splits)

lemma topo_eq_list_append: "list_append l v s = Inr s' \<Longrightarrow> topo_eq s s'"
  unfolding list_append_def bind_res_def Let_def
  by (auto split: option.splits sum.splits
      intro!: topo_eq_trans[OF _ topo_eq_setters(2)] topo_eq_trans[OF _ topo_eq_setters(3)]
        topo_eq_trans[OF _ topo_eq_setters(4)])

lemma topo_eq_list_appendChain: "list_appendChain k l v s = Inr s' \<Longrightarrow> topo_eq s s'"
  unfolding list_appendChain_def bind_res_def Let_def
  by (auto split: option.splits sum.splits
      intro!: topo_eq_trans[OF _ topo_eq_setters(2)] topo_eq_trans[OF _ topo_eq_setters(3)]
        topo_eq_trans[OF _ topo_eq_setters(4)])

lemma topo_eq_addVertexToFace: "addVertexToFace v f s = Inr s' \<Longrightarrow> topo_eq s s'"
  unfolding addVertexToFace_def bind_res_def Let_def
  by (auto split: option.splits sum.splits
      intro!: topo_eq_trans[OF _ topo_eq_setters(6)]
      intro: topo_eq_trans[OF topo_eq_setters(5) topo_eq_list_append]
        topo_eq_trans[OF topo_eq_setters(5) topo_eq_list_ops(2)])

lemma topo_eq_removeVertexFromFace: "topo_eq s (removeVertexFromFace v f s)"
  unfolding removeVertexFromFace_def Let_def
  by (auto split: option.splits intro!: topo_eq_trans[OF _ topo_eq_list_ops(3)])

lemma topo_eq_removeAllVerticesFromFace:
  "removeAllVerticesFromFace k f s = Inr (s', r) \<Longrightarrow> topo_eq s s'"
  unfolding removeAllVerticesFromFace_def Let_def
  by (auto split: option.splits
      intro!: topo_eq_trans[OF _ topo_eq_setters(6)] topo_eq_trans[OF _ topo_eq_setters(3)]
        topo_eq_trans[OF _ topo_eq_setters(4)])

lemma topo_eq_deleteFaceVertices:
  "deleteFaceVertices k f None s = Inr s' \<Longrightarrow> topo_eq s s'"
  unfolding deleteFaceVertices_def bind_res_def
  by (auto split: option.splits sum.splits prod.splits
      dest: topo_eq_removeAllVerticesFromFace topo_eq_list_appendChain
      intro: topo_eq_trans)

lemma topo_eq_resolve_loop: "resolve_loop n nf v s = Inr s' \<Longrightarrow> topo_eq s s'"
proof (induction n arbitrary: v s)
  case 0
  then show ?case by simp
next
  case (Suc n)
  from Suc.prems obtain s1 where
    s1: "(case max_new_face s (point (vnodes s v)) nf (tolerance s) None of
            None \<Rightarrow> Inr s | Some maxFace \<Rightarrow> addVertexToFace v maxFace s) = Inr s1"
    and rest: "(case v_next (vnodes s v) of None \<Rightarrow> Inr s1 | Some w \<Rightarrow> resolve_loop n nf w s1)
               = Inr s'"
    by (auto simp: bind_res_def Let_def split: sum.splits)
  from s1 have a: "topo_eq s s1"
    by (auto split: option.splits dest: topo_eq_addVertexToFace)
  from rest have "topo_eq s1 s'"
    by (auto split: option.splits dest: Suc.IH)
  with a show ?case by (rule topo_eq_trans)
qed

lemma topo_eq_resolveUnassignedPoints:
  "resolveUnassignedPoints k nf s = Inr s' \<Longrightarrow> topo_eq s s'"
  unfolding resolveUnassignedPoints_def
  by (auto split: option.splits dest: topo_eq_resolve_loop)

lemma topo_eq_assign_initial: "assign_initial v0 v1 v2 v3 v s = Inr s' \<Longrightarrow> topo_eq s s'"
  unfolding assign_initial_def
  by (auto split: option.splits if_splits dest: topo_eq_addVertexToFace)

lemma topo_eq_for_each:
  assumes "\<And>x s s'. body x s = Inr s' \<Longrightarrow> topo_eq s s'"
  shows "for_each xs body s = Inr s' \<Longrightarrow> topo_eq s s'"
proof (induction xs arbitrary: s)
  case Nil
  then show ?case by simp
next
  case (Cons x xs)
  then obtain s1 where "body x s = Inr s1" "for_each xs body s1 = Inr s'"
    by (auto simp: bind_res_def split: sum.splits)
  with assms Cons.IH show ?case by (blast intro: topo_eq_trans)
qed

lemma set_twin_views [simp]:
  "twn (set_twin e t s) = (twn s)(e := t)"
  "nxt (set_twin e t s) = nxt s" "efc (set_twin e t s) = efc s"
  "fobjs (set_twin e t s) = fobjs s" "faces (set_twin e t s) = faces s"
  "n_hedges (set_twin e t s) = n_hedges s" "n_fobjs (set_twin e t s) = n_fobjs s"
  "tolerance (set_twin e t s) = tolerance s"
  "face_edges (set_twin e t s) = face_edges s"
  "cycle3 (set_twin e t s) = cycle3 s"
  "e_prev (hedges (set_twin e t s) x) = e_prev (hedges s x)"
  "vertex (hedges (set_twin e t s) x) = vertex (hedges s x)"
  "vnodes (set_twin e t s) = vnodes s"
proof -
  show a: "nxt (set_twin e t s) = nxt s" by (simp add: nxt_def set_twin_def fun_eq_iff)
  show b: "efc (set_twin e t s) = efc s" by (simp add: efc_def set_twin_def fun_eq_iff)
  show c: "fobjs (set_twin e t s) = fobjs s" by (simp add: set_twin_def)
  show d: "n_hedges (set_twin e t s) = n_hedges s" by (simp add: set_twin_def)
  show "twn (set_twin e t s) = (twn s)(e := t)" by (simp add: twn_def set_twin_def fun_eq_iff)
  show "faces (set_twin e t s) = faces s" "n_fobjs (set_twin e t s) = n_fobjs s"
    "tolerance (set_twin e t s) = tolerance s" "vnodes (set_twin e t s) = vnodes s"
    "e_prev (hedges (set_twin e t s) x) = e_prev (hedges s x)"
    "vertex (hedges (set_twin e t s) x) = vertex (hedges s x)"
    by (simp_all add: set_twin_def)
  show "face_edges (set_twin e t s) = face_edges s"
  proof
    fix f show "face_edges (set_twin e t s) f = face_edges s f"
      unfolding face_edges_def a c ..
  qed
  show "cycle3 (set_twin e t s) = cycle3 s"
  proof
    fix f show "cycle3 (set_twin e t s) f = cycle3 s f"
      unfolding cycle3_def a b c d ..
  qed
qed

lemma setTwin_Some: "setTwin (Some a) (Some b) s = Inr (set_twin b (Some a) (set_twin a (Some b) s))"
  by (simp add: setTwin_def Let_def)

lemma setTwin_Inr:
  "setTwin x y s = Inr s' \<Longrightarrow>
   \<exists>a b. x = Some a \<and> y = Some b \<and> s' = set_twin b (Some a) (set_twin a (Some b) s)"
  by (auto simp: setTwin_def Let_def split: option.splits)

text \<open>The state after \<^verbatim>\<open>Face.create\<close>.\<close>

lemma Face_create_Inr:
  assumes "Face_create a b c s = Inr (s', f)"
  shows "f = n_fobjs s" "n_fobjs s' = Suc (n_fobjs s)" "n_hedges s' = n_hedges s + 3"
    "faces s' = faces s" "tolerance s' = tolerance s" "vnodes s' = vnodes s"
    "newFaces s' = newFaces s" "assigned s' = assigned s" "unassigned s' = unassigned s"
    "\<And>e. e < n_hedges s \<Longrightarrow> hedges s' e = hedges s e"
    "\<And>g. g \<noteq> n_fobjs s \<Longrightarrow> fobjs s' g = fobjs s g"
    "edge (fobjs s' (n_fobjs s)) = Some (n_hedges s)"
    "mark (fobjs s' (n_fobjs s)) = Visible"
    "hedges s' (n_hedges s) = \<lparr>vertex = a, e_prev = Some (n_hedges s + 2),
        e_next = Some (n_hedges s + 1), twin = None, e_face = n_fobjs s\<rparr>"
    "hedges s' (n_hedges s + 1) = \<lparr>vertex = b, e_prev = Some (n_hedges s),
        e_next = Some (n_hedges s + 2), twin = None, e_face = n_fobjs s\<rparr>"
    "hedges s' (n_hedges s + 2) = \<lparr>vertex = c, e_prev = Some (n_hedges s + 1),
        e_next = Some (n_hedges s), twin = None, e_face = n_fobjs s\<rparr>"
  using assms
  by (auto simp: Face_create_def Face_compute_def he_tail_def he_head_def bind_res_def Let_def
      split: sum.splits)

lemma cycle3_face_edges:
  assumes "cycle3 s f"
  obtains e0 e1 e2 where "face_edges s f = [e0, e1, e2]" "edge (fobjs s f) = Some e0"
    "nxt s e0 = Some e1" "nxt s e1 = Some e2" "nxt s e2 = Some e0"
    "e0 \<noteq> e1" "e1 \<noteq> e2" "e0 \<noteq> e2" "efc s e0 = f" "efc s e1 = f" "efc s e2 = f"
    "e0 < n_hedges s" "e1 < n_hedges s" "e2 < n_hedges s"
proof -
  from assms obtain e0 e1 e2 where h: "edge (fobjs s f) = Some e0"
    "nxt s e0 = Some e1" "nxt s e1 = Some e2" "nxt s e2 = Some e0"
    "e0 \<noteq> e1" "e1 \<noteq> e2" "e0 \<noteq> e2" "efc s e0 = f" "efc s e1 = f" "efc s e2 = f"
    "e0 < n_hedges s" "e1 < n_hedges s" "e2 < n_hedges s"
    unfolding cycle3_def by blast
  have fe: "face_edges s f = [e0, e1, e2]" by (simp add: face_edges_def h)
  from fe h show ?thesis by (rule that[of e0 e1 e2])
qed

lemma edge_of_face:
  assumes "cycle3 s f" "e \<in> set (face_edges s f)"
  shows "efc s e = f" "e < n_hedges s"
    "\<exists>e'. nxt s e = Some e' \<and> e' \<in> set (face_edges s f) \<and> e' \<noteq> e"
proof -
  from assms(1) obtain e0 e1 e2 where h: "face_edges s f = [e0, e1, e2]"
    "nxt s e0 = Some e1" "nxt s e1 = Some e2" "nxt s e2 = Some e0"
    "e0 \<noteq> e1" "e1 \<noteq> e2" "e0 \<noteq> e2" "efc s e0 = f" "efc s e1 = f" "efc s e2 = f"
    "e0 < n_hedges s" "e1 < n_hedges s" "e2 < n_hedges s"
    by (rule cycle3_face_edges)
  from assms(2) h show "efc s e = f" "e < n_hedges s"
    "\<exists>e'. nxt s e = Some e' \<and> e' \<in> set (face_edges s f) \<and> e' \<noteq> e"
    by auto
qed

lemma face_edges_length: "cycle3 s f \<Longrightarrow> length (face_edges s f) = 3"
  by (erule cycle3_face_edges) simp

lemma next_cycle_edge: "cycle3 s f \<Longrightarrow> e \<in> set (face_edges s f) \<Longrightarrow> next_cycle s e"
  by (erule cycle3_face_edges) (auto simp: next_cycle_def)

lemma paired_involution: "paired L s e \<Longrightarrow> twin_involution s e"
  by (auto simp: paired_def twin_involution_def)

lemma hull_inv_closed: "hull_inv s \<Longrightarrow> closed_mesh s"
  unfolding hull_inv_def closed_mesh_def mesh_ok_def
  by (blast intro: face_edges_length next_cycle_edge paired_involution)

lemma paired_mono: "paired L s e \<Longrightarrow> L \<subseteq> L' \<Longrightarrow> paired L' s e"
  unfolding paired_def by blast

lemma mesh_ok_union: "mesh_ok A s \<Longrightarrow> mesh_ok B s \<Longrightarrow> mesh_ok (A \<union> B) s"
  unfolding mesh_ok_def by (blast intro: paired_mono)

lemma extends_refl [simp]: "extends s s"
  by (simp add: extends_def)

lemma extends_trans:
  assumes "extends s s'" "extends s' s''"
  shows "extends s s''"
  unfolding extends_def
proof (intro conjI allI impI)
  from assms show "n_hedges s \<le> n_hedges s''" "n_fobjs s \<le> n_fobjs s''"
    by (simp_all add: extends_def)
next
  fix e assume e: "e < n_hedges s"
  with assms(1) have e': "e < n_hedges s'" by (simp add: extends_def)
  from assms(1) e have a: "nxt s' e = nxt s e" "efc s' e = efc s e" "twn s' e = twn s e"
    by (simp_all add: extends_def)
  from assms(2) e' have b: "nxt s'' e = nxt s' e" "efc s'' e = efc s' e" "twn s'' e = twn s' e"
    by (simp_all add: extends_def)
  from a b show "nxt s'' e = nxt s e" "efc s'' e = efc s e" "twn s'' e = twn s e" by simp_all
next
  fix f assume f: "f < n_fobjs s \<or> n_fobjs s'' \<le> f"
  from assms have le: "n_fobjs s \<le> n_fobjs s'" "n_fobjs s' \<le> n_fobjs s''"
    by (simp_all add: extends_def)
  from f le have f1: "f < n_fobjs s \<or> n_fobjs s' \<le> f" and f2: "f < n_fobjs s' \<or> n_fobjs s'' \<le> f"
    by auto
  from assms(1) f1 have a: "edge (fobjs s' f) = edge (fobjs s f)"
    "mark (fobjs s' f) = mark (fobjs s f)" unfolding extends_def by blast+
  from assms(2) f2 have b: "edge (fobjs s'' f) = edge (fobjs s' f)"
    "mark (fobjs s'' f) = mark (fobjs s' f)" unfolding extends_def by blast+
  from a b show "edge (fobjs s'' f) = edge (fobjs s f)" "mark (fobjs s'' f) = mark (fobjs s f)"
    by simp_all
qed

lemma extends_cycle3:
  assumes "extends s s'" "f < n_fobjs s" "cycle3 s f"
  shows "cycle3 s' f" "face_edges s' f = face_edges s f"
proof -
  from assms(3) obtain e0 e1 e2 where h: "face_edges s f = [e0, e1, e2]"
    "edge (fobjs s f) = Some e0"
    "nxt s e0 = Some e1" "nxt s e1 = Some e2" "nxt s e2 = Some e0"
    "e0 \<noteq> e1" "e1 \<noteq> e2" "e0 \<noteq> e2" "efc s e0 = f" "efc s e1 = f" "efc s e2 = f"
    "e0 < n_hedges s" "e1 < n_hedges s" "e2 < n_hedges s"
    by (rule cycle3_face_edges)
  from assms(1,2) h have h': "edge (fobjs s' f) = Some e0"
    "nxt s' e0 = Some e1" "nxt s' e1 = Some e2" "nxt s' e2 = Some e0"
    "efc s' e0 = f" "efc s' e1 = f" "efc s' e2 = f"
    "e0 < n_hedges s'" "e1 < n_hedges s'" "e2 < n_hedges s'"
    by (simp_all add: extends_def)
  from h h' show "cycle3 s' f" unfolding cycle3_def by blast
  from h h' show "face_edges s' f = face_edges s f" by (simp add: face_edges_def)
qed

lemma mesh_ok_extends:
  assumes m: "mesh_ok L s" and x: "extends s s'"
  shows "mesh_ok L s'"
  unfolding mesh_ok_def
proof (intro ballI conjI)
  fix f assume f: "f \<in> L"
  with m have fn: "f < n_fobjs s" and c: "cycle3 s f" by (auto simp: mesh_ok_def)
  from x fn show "f < n_fobjs s'" by (simp add: extends_def)
  from extends_cycle3[OF x fn c] show "cycle3 s' f" by simp
  fix e assume "e \<in> set (face_edges s' f)"
  with extends_cycle3[OF x fn c] have e: "e \<in> set (face_edges s f)" by simp
  with m f obtain t where t: "twn s e = Some t" "twn s t = Some e" "efc s t \<in> L"
    "t \<in> set (face_edges s (efc s t))"
    unfolding mesh_ok_def paired_def by blast
  from m t have tn: "efc s t < n_fobjs s" and tc: "cycle3 s (efc s t)"
    by (auto simp: mesh_ok_def)
  from edge_of_face[OF c e] edge_of_face[OF tc t(4)] have lt: "e < n_hedges s" "t < n_hedges s"
    by simp_all
  with x have "twn s' e = twn s e" "twn s' t = twn s t" "efc s' t = efc s t"
    by (simp_all add: extends_def)
  with t extends_cycle3[OF x tn tc] show "paired L s' e"
    unfolding paired_def by simp
qed

lemma bind_res_Inr_iff: "bind_res r f = Inr y \<longleftrightarrow> (\<exists>x. r = Inr x \<and> f x = Inr y)"
  by (cases r) (simp_all add: bind_res_def)

lemma link_views [simp]:
  "twn (link a b s) = (twn s)(a := Some b, b := Some a)"
  "nxt (link a b s) = nxt s" "efc (link a b s) = efc s"
  "fobjs (link a b s) = fobjs s" "faces (link a b s) = faces s"
  "n_hedges (link a b s) = n_hedges s" "n_fobjs (link a b s) = n_fobjs s"
  "face_edges (link a b s) = face_edges s" "cycle3 (link a b s) = cycle3 s"
  "e_next (hedges (link a b s) x) = e_next (hedges s x)"
  "e_prev (hedges (link a b s) x) = e_prev (hedges s x)"
  by (simp_all add: link_def) (simp_all add: set_twin_def)

lemma setTwin_link: "setTwin (Some a) (Some b) s = Inr (link a b s)"
  by (simp add: setTwin_Some link_def)

lemma walk_next_link [simp]: "walk_next (hedges (link a b s)) n e = walk_next (hedges s) n e"
  by (induction "hedges s" n e rule: walk_next.induct) simp_all

lemma walk_prev_link [simp]: "walk_prev (hedges (link a b s)) n e = walk_prev (hedges s) n e"
  by (induction "hedges s" n e rule: walk_prev.induct) simp_all

lemma tri_link [simp]: "tri (link a b s) = tri s"
  by (simp add: tri_def fun_eq_iff)

lemma tri_cycle3:
  assumes "tri s g e"
  shows "cycle3 s g" "face_edges s g = [e, e + 1, e + 2]"
proof -
  from assms show "cycle3 s g"
    unfolding tri_def cycle3_def
    by (intro exI[of _ e] exI[of _ "e + 1"] exI[of _ "e + 2"]) simp
  from assms show "face_edges s g = [e, e + 1, e + 2]"
    by (simp add: tri_def face_edges_def)
qed

lemma tri_extends: "tri s g e \<Longrightarrow> extends s s' \<Longrightarrow> tri s' g e"
  unfolding tri_def extends_def by simp

lemma extends_link: "extends s0 s \<Longrightarrow> n_hedges s0 \<le> a \<Longrightarrow> n_hedges s0 \<le> b \<Longrightarrow> extends s0 (link a b s)"
  unfolding extends_def by simp

lemma Face_create_extends:
  assumes "Face_create a b c s = Inr (s', f)"
  shows "extends s s'" "tri s' (n_fobjs s) (n_hedges s)" "f = n_fobjs s"
    "n_fobjs s' = n_fobjs s + 1" "n_hedges s' = n_hedges s + 3" "faces s' = faces s"
    "\<And>g. g \<noteq> n_fobjs s \<Longrightarrow> fobjs s' g = fobjs s g"
proof -
  note h = Face_create_Inr[OF assms]
  show "extends s s'"
    unfolding extends_def nxt_def efc_def twn_def using h by simp
  show "tri s' (n_fobjs s) (n_hedges s)"
    unfolding tri_def nxt_def efc_def using h by simp
  show "f = n_fobjs s" "n_fobjs s' = n_fobjs s + 1" "n_hedges s' = n_hedges s + 3"
    "faces s' = faces s" "\<And>g. g \<noteq> n_fobjs s \<Longrightarrow> fobjs s' g = fobjs s g"
    using h by simp_all
qed

lemma upt4: "[n ..< n + 4] = [n, n + 1, n + 2, n + 3]"
proof -
  have "[n ..< n + 4] = map (\<lambda>i. i + n) [0 ..< 4]" by (simp add: map_add_upt add.commute)
  also have "[0 ..< 4::nat] = [0, 1, 2, 3]" by (simp add: upt_conv_Cons numeral_eq_Suc del: upt_Suc)
  finally show ?thesis by simp
qed

lemma fold_c4step_Inl: "fold c4step ts (Inl e) = Inl e"
  by (induction ts) (auto simp: c4step_def bind_res_def)

lemma fold_c4step:
  assumes "fold c4step ts (Inr (s, fs)) = Inr (s2, fs2)"
  shows "extends s s2 \<and> faces s2 = faces s \<and> n_fobjs s2 = n_fobjs s + length ts \<and>
    n_hedges s2 = n_hedges s + 3 * length ts \<and>
    fs2 = fs @ [n_fobjs s ..< n_fobjs s + length ts] \<and>
    (\<forall>i < length ts. tri s2 (n_fobjs s + i) (n_hedges s + 3 * i)) \<and>
    (\<forall>g. g < n_fobjs s \<or> n_fobjs s2 \<le> g \<longrightarrow> fobjs s2 g = fobjs s g)"
  using assms
proof (induction ts arbitrary: s fs)
  case Nil
  then show ?case by simp
next
  case (Cons t ts)
  obtain a b c where t: "t = (a, b, c)" by (cases t) auto
  show ?case
  proof (cases "Face_create a b c s")
    case (Inl e)
    with t have "c4step t (Inr (s, fs)) = Inl e"
      by (simp add: c4step_def bind_res_simps)
    with Cons.prems show ?thesis
      by (simp add: fold_c4step_Inl)
  next
    case (Inr r)
    obtain s1 f where r: "r = (s1, f)" by (cases r) auto
    note fc = Face_create_extends[OF Inr[unfolded r]]
    from t Inr r have "c4step t (Inr (s, fs)) = Inr (s1, fs @ [f])"
      by (simp add: c4step_def bind_res_simps)
    with Cons.prems have "fold c4step ts (Inr (s1, fs @ [f])) = Inr (s2, fs2)"
      by simp
    from Cons.IH[OF this] have ih: "extends s1 s2" "faces s2 = faces s1"
      "n_fobjs s2 = n_fobjs s1 + length ts" "n_hedges s2 = n_hedges s1 + 3 * length ts"
      "fs2 = (fs @ [f]) @ [n_fobjs s1 ..< n_fobjs s1 + length ts]"
      "\<And>i. i < length ts \<Longrightarrow> tri s2 (n_fobjs s1 + i) (n_hedges s1 + 3 * i)"
      "\<And>g. g < n_fobjs s1 \<or> n_fobjs s2 \<le> g \<Longrightarrow> fobjs s2 g = fobjs s1 g"
      by blast+
    have 1: "extends s s2" using fc(1) ih(1) by (rule extends_trans)
    have 2: "fs2 = fs @ [n_fobjs s ..< n_fobjs s + length (t # ts)]"
      using ih(5) fc(3,4) by (simp add: upt_shift del: upt_Suc)
    have 3: "tri s2 (n_fobjs s + i) (n_hedges s + 3 * i)" if "i < length (t # ts)" for i
    proof (cases i)
      case 0
      with tri_extends[OF fc(2) ih(1)] show ?thesis by simp
    next
      case (Suc j)
      with that ih(6)[of j] fc(4,5) show ?thesis by (simp add: algebra_simps)
    qed
    have 4: "fobjs s2 g = fobjs s g" if "g < n_fobjs s \<or> n_fobjs s2 \<le> g" for g
    proof -
      from that ih(3) fc(4) have "g < n_fobjs s1 \<or> n_fobjs s2 \<le> g" "g \<noteq> n_fobjs s" by auto
      with ih(7)[of g] fc(7)[of g] show ?thesis by simp
    qed
    from 1 2 3 4 ih(2,3,4) fc(4,5,6) show ?thesis by simp
  qed
qed

lemma create4_Inr:
  assumes "create4 [t0, t1, t2, t3] s = Inr (s2, fs)"
  shows "extends s s2" "faces s2 = faces s" "n_fobjs s2 = n_fobjs s + 4"
    "n_hedges s2 = n_hedges s + 12"
    "fs = [n_fobjs s, n_fobjs s + 1, n_fobjs s + 2, n_fobjs s + 3]"
    "tri s2 (n_fobjs s) (n_hedges s)" "tri s2 (n_fobjs s + 1) (n_hedges s + 3)"
    "tri s2 (n_fobjs s + 2) (n_hedges s + 6)" "tri s2 (n_fobjs s + 3) (n_hedges s + 9)"
    "\<And>g. g < n_fobjs s \<or> n_fobjs s + 4 \<le> g \<Longrightarrow> fobjs s2 g = fobjs s g"
proof -
  from assms have "fold c4step [t0, t1, t2, t3] (Inr (s, [])) = Inr (s2, fs)"
    by (simp only: create4_def c4step_def)
  note h0 = fold_c4step[OF this]
  have l: "length [t0, t1, t2, t3] = 4" by simp
  note h = h0[unfolded l append_Nil]
  from h show "extends s s2" "faces s2 = faces s" "n_fobjs s2 = n_fobjs s + 4"
    "n_hedges s2 = n_hedges s + 12" by simp_all
  from h have "fs = [n_fobjs s ..< n_fobjs s + 4]" by blast
  then show "fs = [n_fobjs s, n_fobjs s + 1, n_fobjs s + 2, n_fobjs s + 3]"
    by (simp only: upt4)
  from h have t: "\<And>i. i < 4 \<Longrightarrow> tri s2 (n_fobjs s + i) (n_hedges s + 3 * i)" by simp
  from t[of 0] t[of 1] t[of 2] t[of 3]
  show "tri s2 (n_fobjs s) (n_hedges s)" "tri s2 (n_fobjs s + 1) (n_hedges s + 3)"
    "tri s2 (n_fobjs s + 2) (n_hedges s + 6)" "tri s2 (n_fobjs s + 3) (n_hedges s + 9)"
    by simp_all
  from h have n: "n_fobjs s2 = n_fobjs s + 4"
    and a: "\<forall>g. g < n_fobjs s \<or> n_fobjs s2 \<le> g \<longrightarrow> fobjs s2 g = fobjs s g" by blast+
  from a[unfolded n]
  show "\<And>g. g < n_fobjs s \<or> n_fobjs s + 4 \<le> g \<Longrightarrow> fobjs s2 g = fobjs s g" by blast
qed

text \<open>The two stitching loops on four fresh triangles.\<close>

lemma getEdge_tri:
  assumes "tri s g e"
  shows "getEdge s g 0 = Inr (Some e)" "getEdge s g 1 = Inr (Some (e + 1))"
    "getEdge s g 2 = Inr (Some (e + 2))"
  using assms by (simp_all add: getEdge_def tri_def nxt_def fuel_numeral)

lemma join_edges_tri:
  assumes "getEdge s a i = Inr (Some x)" "getEdge s b j = Inr (Some y)"
  shows "join_edges a i b j s = Inr (link x y s)"
  using assms by (simp add: join_edges_def bind_res_simps setTwin_link)

lemma stitch_below_result:
  assumes "tri s g0 e0" "tri s g1 e1" "tri s g2 e2" "tri s g3 e3"
  shows "for_each [0, 1, 2] (stitch_below [g0, g1, g2, g3]) s =
    Inr (link (e3 + 1) e1 (link (e3 + 2) e0 (link (e2 + 1) e3 (link (e2 + 2) (e0 + 2)
      (link (e1 + 1) e2 (link (e1 + 2) (e0 + 1) s))))))"
proof -
  define sa where "sa = link (e1 + 2) (e0 + 1) s"
  define sb where "sb = link (e1 + 1) e2 sa"
  define sc where "sc = link (e2 + 2) (e0 + 2) sb"
  define sd where "sd = link (e2 + 1) e3 sc"
  define se where "se = link (e3 + 2) e0 sd"
  have t: "tri x g0 e0" "tri x g1 e1" "tri x g2 e2" "tri x g3 e3"
    if "x = s \<or> x = sa \<or> x = sb \<or> x = sc \<or> x = sd \<or> x = se" for x
    using that assms by (auto simp: sa_def sb_def sc_def sd_def se_def)
  have 1: "join_edges g1 2 g0 1 s = Inr sa"
    unfolding sa_def by (rule join_edges_tri) (simp_all add: getEdge_tri[OF t(1)] getEdge_tri[OF t(2)])
  have 2: "join_edges g1 1 g2 0 sa = Inr sb"
    unfolding sb_def by (rule join_edges_tri) (simp_all add: getEdge_tri[OF t(2)] getEdge_tri[OF t(3)])
  have 3: "join_edges g2 2 g0 2 sb = Inr sc"
    unfolding sc_def by (rule join_edges_tri) (simp_all add: getEdge_tri[OF t(1)] getEdge_tri[OF t(3)])
  have 4: "join_edges g2 1 g3 0 sc = Inr sd"
    unfolding sd_def by (rule join_edges_tri) (simp_all add: getEdge_tri[OF t(3)] getEdge_tri[OF t(4)])
  have 5: "join_edges g3 2 g0 0 sd = Inr se"
    unfolding se_def by (rule join_edges_tri) (simp_all add: getEdge_tri[OF t(1)] getEdge_tri[OF t(4)])
  have 6: "join_edges g3 1 g1 0 se = Inr (link (e3 + 1) e1 se)"
    by (rule join_edges_tri) (simp_all add: getEdge_tri[OF t(2)] getEdge_tri[OF t(4)])
  show ?thesis
    unfolding sa_def[symmetric] sb_def[symmetric] sc_def[symmetric] sd_def[symmetric]
      se_def[symmetric]
    by (simp add: stitch_below_def bind_res_simps 1 2 3 4 5 6 cong: bind_res_cong)
qed

lemma stitch_above_result:
  assumes "tri s g0 e0" "tri s g1 e1" "tri s g2 e2" "tri s g3 e3"
  shows "for_each [0, 1, 2] (stitch_above [g0, g1, g2, g3]) s =
    Inr (link e3 (e1 + 1) (link (e3 + 2) (e0 + 1) (link e2 (e3 + 1) (link (e2 + 2) (e0 + 2)
      (link e1 (e2 + 1) (link (e1 + 2) e0 s))))))"
proof -
  define sa where "sa = link (e1 + 2) e0 s"
  define sb where "sb = link e1 (e2 + 1) sa"
  define sc where "sc = link (e2 + 2) (e0 + 2) sb"
  define sd where "sd = link e2 (e3 + 1) sc"
  define se where "se = link (e3 + 2) (e0 + 1) sd"
  have t: "tri x g0 e0" "tri x g1 e1" "tri x g2 e2" "tri x g3 e3"
    if "x = s \<or> x = sa \<or> x = sb \<or> x = sc \<or> x = sd \<or> x = se" for x
    using that assms by (auto simp: sa_def sb_def sc_def sd_def se_def)
  have 1: "join_edges g1 2 g0 0 s = Inr sa"
    unfolding sa_def by (rule join_edges_tri) (simp_all add: getEdge_tri[OF t(1)] getEdge_tri[OF t(2)])
  have 2: "join_edges g1 0 g2 1 sa = Inr sb"
    unfolding sb_def by (rule join_edges_tri) (simp_all add: getEdge_tri[OF t(2)] getEdge_tri[OF t(3)])
  have 3: "join_edges g2 2 g0 2 sb = Inr sc"
    unfolding sc_def by (rule join_edges_tri) (simp_all add: getEdge_tri[OF t(1)] getEdge_tri[OF t(3)])
  have 4: "join_edges g2 0 g3 1 sc = Inr sd"
    unfolding sd_def by (rule join_edges_tri) (simp_all add: getEdge_tri[OF t(3)] getEdge_tri[OF t(4)])
  have 5: "join_edges g3 2 g0 1 sd = Inr se"
    unfolding se_def by (rule join_edges_tri) (simp_all add: getEdge_tri[OF t(1)] getEdge_tri[OF t(4)])
  have 6: "join_edges g3 0 g1 1 se = Inr (link e3 (e1 + 1) se)"
    by (rule join_edges_tri) (simp_all add: getEdge_tri[OF t(2)] getEdge_tri[OF t(4)])
  show ?thesis
    unfolding sa_def[symmetric] sb_def[symmetric] sc_def[symmetric] sd_def[symmetric]
      se_def[symmetric]
    by (simp add: stitch_above_def bind_res_simps 1 2 3 4 5 6 cong: bind_res_cong)
qed

lemma paired_fresh:
  assumes "twn s e = Some t" "twn s t = Some e" "efc s t = g" "g \<in> L"
    "t \<in> set (face_edges s g)"
  shows "paired L s e"
  using assms unfolding paired_def by blast

lemma tri_efc:
  assumes "tri s g e"
  shows "efc s (e + 0) = g" "efc s (e + 1) = g" "efc s (e + 2) = g"
    "face_edges s g = [e + 0, e + 1, e + 2]"
  using assms tri_cycle3(2)[OF assms] by (simp_all add: tri_def)

lemma mesh_ok_tris:
  assumes t: "tri s n e" "tri s (n + 1) (e + 3)" "tri s (n + 2) (e + 6)" "tri s (n + 3) (e + 9)"
    and p: "\<And>i. i < 12 \<Longrightarrow> \<exists>j < 12. twn s (e + i) = Some (e + j) \<and> twn s (e + j) = Some (e + i)"
  shows "mesh_ok {n, n + 1, n + 2, n + 3} s"
proof -
  let ?L = "{n, n + 1, n + 2, n + 3}"
  note c = tri_cycle3[OF t(1)] tri_cycle3[OF t(2)] tri_cycle3[OF t(3)] tri_cycle3[OF t(4)]
  have a: "e + 3 + 0 = e + 3" "e + 3 + 1 = e + 4" "e + 3 + 2 = e + 5"
    "e + 6 + 0 = e + 6" "e + 6 + 1 = e + 7" "e + 6 + 2 = e + 8"
    "e + 9 + 0 = e + 9" "e + 9 + 1 = e + 10" "e + 9 + 2 = e + 11" by simp_all
  have ef: "efc s (e + 0) = n" "efc s (e + 1) = n" "efc s (e + 2) = n"
    "efc s (e + 3) = n + 1" "efc s (e + 4) = n + 1" "efc s (e + 5) = n + 1"
    "efc s (e + 6) = n + 2" "efc s (e + 7) = n + 2" "efc s (e + 8) = n + 2"
    "efc s (e + 9) = n + 3" "efc s (e + 10) = n + 3" "efc s (e + 11) = n + 3"
    by (rule tri_efc[OF t(1)] tri_efc[OF t(2), unfolded a] tri_efc[OF t(3), unfolded a]
        tri_efc[OF t(4), unfolded a])+
  have fe: "face_edges s n = [e + 0, e + 1, e + 2]" "face_edges s (n + 1) = [e + 3, e + 4, e + 5]"
    "face_edges s (n + 2) = [e + 6, e + 7, e + 8]" "face_edges s (n + 3) = [e + 9, e + 10, e + 11]"
    by (rule tri_efc[OF t(1)] tri_efc[OF t(2), unfolded a] tri_efc[OF t(3), unfolded a]
        tri_efc[OF t(4), unfolded a])+
  have fc: "efc s (e + j) \<in> ?L \<and> e + j \<in> set (face_edges s (efc s (e + j)))" if "j < 12" for j
  proof -
    from that have "j = 0 \<or> j = 1 \<or> j = 2 \<or> j = 3 \<or> j = 4 \<or> j = 5 \<or> j = 6
      \<or> j = 7 \<or> j = 8 \<or> j = 9 \<or> j = 10 \<or> j = 11" by presburger
    then show ?thesis
      by (elim disjE; simp only: ef fe; simp)
  qed
  have pr: "paired ?L s (e + i)" if "i < 12" for i
  proof -
    from p[OF that] obtain j where j: "j < 12" "twn s (e + i) = Some (e + j)"
      "twn s (e + j) = Some (e + i)" by blast
    with fc[OF j(1)] show ?thesis unfolding paired_def by blast
  qed
  show ?thesis
    unfolding mesh_ok_def
  proof (intro ballI conjI)
    fix f assume f: "f \<in> ?L"
    with t show "f < n_fobjs s" by (auto simp: tri_def)
    from f c show "cycle3 s f" by auto
    fix x assume "x \<in> set (face_edges s f)"
    with f have "x \<in> set [e + 0, e + 1, e + 2] \<or> x \<in> set [e + 3, e + 4, e + 5]
      \<or> x \<in> set [e + 6, e + 7, e + 8] \<or> x \<in> set [e + 9, e + 10, e + 11]"
      by (elim insertE emptyE; simp only: fe; simp)
    then have "\<exists>i < 12. x = e + i"
      unfolding list.set insert_iff empty_iff
      by (elim disjE FalseE; intro exI conjI; (assumption | simp))
    with pr show "paired ?L s x" by blast
  qed
qed

lemma computeInitialHull_parts:
  assumes "computeInitialHull s = Inr s'"
  obtains s1 ex t0 t1 t2 t3 fs s2 s3 v0 v1 v2 v3 where
    "computeExtremes s = Inr (s1, ex)" "create4 [t0, t1, t2, t3] s1 = Inr (s2, fs)"
    "for_each [0, 1, 2] (stitch_below fs) s2 = Inr s3
     \<or> for_each [0, 1, 2] (stitch_above fs) s2 = Inr s3"
    "for_each (vertices s3) (assign_initial v0 v1 v2 v3) (s3\<lparr>faces := faces s3 @ fs\<rparr>) = Inr s'"
proof -
  from assms obtain s1 ex where ce: "computeExtremes s = Inr (s1, ex)"
    by (cases "computeExtremes s") (auto simp: computeInitialHull_def bind_res_simps)
  define v0 where "v0 = minVertices ex ! greatest_axis (vnodes s1) ex"
  define v1 where "v1 = maxVertices ex ! greatest_axis (vnodes s1) ex"
  from assms ce obtain v2 where v2: "find_v2 (vnodes s1) v0 v1 (vertices s1) 0 None = Some v2"
    by (cases "find_v2 (vnodes s1) v0 v1 (vertices s1) 0 None")
      (auto simp: computeInitialHull_def bind_res_simps Let_def v0_def v1_def)
  define plane where "plane = setFromCoplanarPoints (point (vnodes s1 v0)) (point (vnodes s1 v1))
    (point (vnodes s1 v2))"
  from assms ce v2 obtain v3 where
    v3: "find_v3 (vnodes s1) plane v0 v1 v2 (vertices s1) (- 1) None = Some v3"
    by (cases "find_v3 (vnodes s1) plane v0 v1 v2 (vertices s1) (- 1) None")
      (auto simp: computeInitialHull_def bind_res_simps Let_def v0_def v1_def plane_def)
  define build where "build =
    (if plane_distanceToPoint plane (point (vnodes s1 v3)) < 0
     then bind_res (create4 [(v0, v1, v2), (v3, v1, v0), (v3, v2, v1), (v3, v0, v2)] s1)
            (\<lambda>(s2, fs). bind_res (for_each [0, 1, 2] (stitch_below fs) s2) (\<lambda>s3. Inr (s3, fs)))
     else bind_res (create4 [(v0, v2, v1), (v3, v0, v1), (v3, v1, v2), (v3, v2, v0)] s1)
            (\<lambda>(s2, fs). bind_res (for_each [0, 1, 2] (stitch_above fs) s2) (\<lambda>s3. Inr (s3, fs))))"
  have eq: "computeInitialHull s = bind_res build (\<lambda>(s3, fs).
      for_each (vertices s3) (assign_initial v0 v1 v2 v3) (s3\<lparr>faces := faces s3 @ fs\<rparr>))"
    unfolding computeInitialHull_def build_def
    by (simp add: ce bind_res_simps Let_def v2[unfolded v0_def v1_def]
        v3[unfolded plane_def v0_def v1_def] v0_def v1_def plane_def)
  from assms[unfolded eq] obtain s3 fs where b: "build = Inr (s3, fs)"
    and fin: "for_each (vertices s3) (assign_initial v0 v1 v2 v3) (s3\<lparr>faces := faces s3 @ fs\<rparr>)
      = Inr s'"
    by (auto simp: bind_res_Inr_iff)
  from b obtain t0 t1 t2 t3 s2 where c4: "create4 [t0, t1, t2, t3] s1 = Inr (s2, fs)"
    "for_each [0, 1, 2] (stitch_below fs) s2 = Inr s3
     \<or> for_each [0, 1, 2] (stitch_above fs) s2 = Inr s3"
    unfolding build_def by (auto simp: bind_res_Inr_iff split: if_splits)
  from ce c4 fin show ?thesis by (rule that)
qed

lemma faces_update_views [simp]:
  "nxt (s\<lparr>faces := x\<rparr>) = nxt s" "twn (s\<lparr>faces := x\<rparr>) = twn s" "efc (s\<lparr>faces := x\<rparr>) = efc s"
  "face_edges (s\<lparr>faces := x\<rparr>) = face_edges s" "cycle3 (s\<lparr>faces := x\<rparr>) = cycle3 s"
  "paired L (s\<lparr>faces := x\<rparr>) = paired L s" "mesh_ok L (s\<lparr>faces := x\<rparr>) = mesh_ok L s"
  "live_faces (s\<lparr>faces := x\<rparr>) = {f \<in> set x. mark (fobjs s f) = Visible}"
proof -
  show a: "nxt (s\<lparr>faces := x\<rparr>) = nxt s" "twn (s\<lparr>faces := x\<rparr>) = twn s"
    "efc (s\<lparr>faces := x\<rparr>) = efc s"
    by (simp_all add: nxt_def twn_def efc_def fun_eq_iff)
  have fo: "fobjs (s\<lparr>faces := x\<rparr>) = fobjs s" "n_hedges (s\<lparr>faces := x\<rparr>) = n_hedges s"
    by simp_all
  show b: "face_edges (s\<lparr>faces := x\<rparr>) = face_edges s"
  proof
    fix f show "face_edges (s\<lparr>faces := x\<rparr>) f = face_edges s f"
      unfolding face_edges_def a fo ..
  qed
  show c: "cycle3 (s\<lparr>faces := x\<rparr>) = cycle3 s"
  proof
    fix f show "cycle3 (s\<lparr>faces := x\<rparr>) f = cycle3 s f"
      unfolding cycle3_def a fo ..
  qed
  show d: "paired L (s\<lparr>faces := x\<rparr>) = paired L s" for L
    by (simp add: paired_def a b fun_eq_iff)
  show "mesh_ok L (s\<lparr>faces := x\<rparr>) = mesh_ok L s"
    by (simp add: mesh_ok_def b c d)
  show "live_faces (s\<lparr>faces := x\<rparr>) = {f \<in> set x. mark (fobjs s f) = Visible}"
    by (simp add: live_faces_def)
qed

lemma computeExtremes_mesh:
  assumes "computeExtremes s = Inr (s1, ex)"
  shows "extends s s1" "live_faces s1 = live_faces s" "n_fobjs s1 = n_fobjs s"
    "n_hedges s1 = n_hedges s"
  using assms
  by (auto simp: computeExtremes_def Let_def extends_def nxt_def twn_def efc_def live_faces_def
      split: list.splits)

lemma linked_below:
  fixes e :: nat
  assumes "s3 = link (e + 9 + 1) (e + 3) (link (e + 9 + 2) e (link (e + 6 + 1) (e + 9)
      (link (e + 6 + 2) (e + 2) (link (e + 3 + 1) (e + 6) (link (e + 3 + 2) (e + 1) s)))))"
    and "i < 12"
  shows "\<exists>j < 12. twn s3 (e + i) = Some (e + j) \<and> twn s3 (e + j) = Some (e + i)"
proof -
  from assms(2) have "i = 0 \<or> i = 1 \<or> i = 2 \<or> i = 3 \<or> i = 4 \<or> i = 5 \<or> i = 6
      \<or> i = 7 \<or> i = 8 \<or> i = 9 \<or> i = 10 \<or> i = 11" by presburger
  then show ?thesis
    unfolding assms(1) by (elim disjE; simp)
qed

lemma linked_above:
  fixes e :: nat
  assumes "s3 = link (e + 9) (e + 3 + 1) (link (e + 9 + 2) (e + 1) (link (e + 6) (e + 9 + 1)
      (link (e + 6 + 2) (e + 2) (link (e + 3) (e + 6 + 1) (link (e + 3 + 2) e s)))))"
    and "i < 12"
  shows "\<exists>j < 12. twn s3 (e + i) = Some (e + j) \<and> twn s3 (e + j) = Some (e + i)"
proof -
  from assms(2) have "i = 0 \<or> i = 1 \<or> i = 2 \<or> i = 3 \<or> i = 4 \<or> i = 5 \<or> i = 6
      \<or> i = 7 \<or> i = 8 \<or> i = 9 \<or> i = 10 \<or> i = 11" by presburger
  then show ?thesis
    unfolding assms(1) by (elim disjE; simp)
qed

lemma extends_link6:
  assumes "extends s1 s2" "n_hedges s1 \<le> e"
  shows "extends s1 (link (e + a1) (e + b1) (link (e + a2) (e + b2) (link (e + a3) (e + b3)
      (link (e + a4) (e + b4) (link (e + a5) (e + b5) (link (e + a6) (e + b6) s2))))))"
  using assms by (intro extends_link) simp_all

lemma stitched:
  assumes x: "extends s1 s2" and e: "n_hedges s1 \<le> e"
    and s3: "s3 = link (e + a1) (e + b1) (link (e + a2) (e + b2) (link (e + a3) (e + b3)
      (link (e + a4) (e + b4) (link (e + a5) (e + b5) (link (e + a6) (e + b6) s2)))))"
  shows "extends s1 s3" "tri s3 = tri s2" "fobjs s3 = fobjs s2" "faces s3 = faces s2"
proof -
  show "extends s1 s3" unfolding s3 using x e by (rule extends_link6)
  show "tri s3 = tri s2" "fobjs s3 = fobjs s2" "faces s3 = faces s2"
    unfolding s3 by simp_all
qed

lemma simplex_inv:
  assumes inv: "mesh_ok (live_faces s1) s1"
    and c4: "create4 [t0, t1, t2, t3] s1 = Inr (s2, fs)"
    and st: "for_each [0, 1, 2] (stitch_below fs) s2 = Inr s3
     \<or> for_each [0, 1, 2] (stitch_above fs) s2 = Inr s3"
  shows "hull_inv (s3\<lparr>faces := faces s3 @ fs\<rparr>)"
proof -
  define n where "n = n_fobjs s1"
  define e where "e = n_hedges s1"
  note c = create4_Inr[OF c4, folded n_def e_def]
  have le: "n_hedges s1 \<le> e" by (simp add: e_def)
  have e0: "e = e + 0" by simp
  have "(\<forall>i < 12. \<exists>j < 12. twn s3 (e + i) = Some (e + j) \<and> twn s3 (e + j) = Some (e + i))
      \<and> extends s1 s3 \<and> tri s3 = tri s2 \<and> fobjs s3 = fobjs s2 \<and> faces s3 = faces s2"
    using st
  proof
    assume "for_each [0, 1, 2] (stitch_below fs) s2 = Inr s3"
    then have "Inr s3 = for_each [0, 1, 2] (stitch_below [n, n + 1, n + 2, n + 3]) s2"
      unfolding c(5) by (rule sym)
    also note stitch_below_result[OF c(6,7,8,9)]
    finally have s3: "s3 = link (e + 9 + 1) (e + 3) (link (e + 9 + 2) e (link (e + 6 + 1) (e + 9)
      (link (e + 6 + 2) (e + 2) (link (e + 3 + 1) (e + 6) (link (e + 3 + 2) (e + 1) s2)))))"
      by (simp only: sum.inject)
    have s3': "s3 = link (e + (9 + 1)) (e + 3) (link (e + (9 + 2)) (e + 0) (link (e + (6 + 1)) (e + 9)
      (link (e + (6 + 2)) (e + 2) (link (e + (3 + 1)) (e + 6) (link (e + (3 + 2)) (e + 1) s2)))))"
      unfolding s3 add.assoc add_0_right ..
    from linked_below[OF s3] stitched[OF c(1) le s3'] show ?thesis by blast
  next
    assume "for_each [0, 1, 2] (stitch_above fs) s2 = Inr s3"
    then have "Inr s3 = for_each [0, 1, 2] (stitch_above [n, n + 1, n + 2, n + 3]) s2"
      unfolding c(5) by (rule sym)
    also note stitch_above_result[OF c(6,7,8,9)]
    finally have s3: "s3 = link (e + 9) (e + 3 + 1) (link (e + 9 + 2) (e + 1) (link (e + 6) (e + 9 + 1)
      (link (e + 6 + 2) (e + 2) (link (e + 3) (e + 6 + 1) (link (e + 3 + 2) e s2)))))"
      by (simp only: sum.inject)
    have s3': "s3 = link (e + 9) (e + (3 + 1)) (link (e + (9 + 2)) (e + 1) (link (e + 6) (e + (9 + 1))
      (link (e + (6 + 2)) (e + 2) (link (e + 3) (e + (6 + 1)) (link (e + (3 + 2)) (e + 0) s2)))))"
      unfolding s3 add.assoc add_0_right ..
    from linked_above[OF s3] stitched[OF c(1) le s3'] show ?thesis by blast
  qed
  then have p: "\<And>i. i < 12 \<Longrightarrow> \<exists>j < 12. twn s3 (e + i) = Some (e + j) \<and> twn s3 (e + j) = Some (e + i)"
    and x: "extends s1 s3" and t: "tri s3 = tri s2" and fo: "fobjs s3 = fobjs s2"
    and fa: "faces s3 = faces s2"
    by blast+
  have new: "mesh_ok {n, n + 1, n + 2, n + 3} s3"
    using c(6,7,8,9)[folded t] p by (rule mesh_ok_tris)
  have old: "mesh_ok (live_faces s1) s3" using inv x by (rule mesh_ok_extends)
  have lt: "g < n" if "g \<in> live_faces s1" for g
    using inv that by (simp add: mesh_ok_def n_def)
  have vis: "mark (fobjs s3 g) = Visible" if "g \<in> {n, n + 1, n + 2, n + 3}" for g
    using that c(6,7,8,9) by (auto simp: fo tri_def)
  have same: "fobjs s3 g = fobjs s1 g" if "g \<notin> {n, n + 1, n + 2, n + 3}" for g
  proof -
    from that have "g < n \<or> n + 4 \<le> g" by auto
    with c(10)[of g] show ?thesis by (simp add: fo)
  qed
  have "live_faces (s3\<lparr>faces := faces s3 @ fs\<rparr>) = live_faces s1 \<union> {n, n + 1, n + 2, n + 3}"
  proof (intro set_eqI iffI)
    fix g assume g: "g \<in> live_faces (s3\<lparr>faces := faces s3 @ fs\<rparr>)"
    show "g \<in> live_faces s1 \<union> {n, n + 1, n + 2, n + 3}"
    proof (cases "g \<in> {n, n + 1, n + 2, n + 3}")
      case True
      then show ?thesis by blast
    next
      case False
      with g same[OF False] show ?thesis
        by (auto simp: fa c(2) c(5) live_faces_def)
    qed
  next
    fix g assume g: "g \<in> live_faces s1 \<union> {n, n + 1, n + 2, n + 3}"
    show "g \<in> live_faces (s3\<lparr>faces := faces s3 @ fs\<rparr>)"
    proof (cases "g \<in> {n, n + 1, n + 2, n + 3}")
      case True
      with vis[OF True] show ?thesis by (auto simp: c(5))
    next
      case False
      with g have l: "g \<in> live_faces s1" by simp
      with same[OF False] show ?thesis by (simp add: fa c(2) live_faces_def)
    qed
  qed
  with mesh_ok_union[OF old new] show ?thesis by (simp add: hull_inv_def)
qed

lemma computeInitialHull_inv:
  assumes "hull_inv s" "computeInitialHull s = Inr s'"
  shows "hull_inv s'"
proof -
  from assms(2) obtain s1 ex t0 t1 t2 t3 fs s2 s3 v0 v1 v2 v3 where
    ce: "computeExtremes s = Inr (s1, ex)" and c4: "create4 [t0, t1, t2, t3] s1 = Inr (s2, fs)"
    and st: "for_each [0, 1, 2] (stitch_below fs) s2 = Inr s3
     \<or> for_each [0, 1, 2] (stitch_above fs) s2 = Inr s3"
    and fin: "for_each (vertices s3) (assign_initial v0 v1 v2 v3) (s3\<lparr>faces := faces s3 @ fs\<rparr>)
      = Inr s'"
    by (rule computeInitialHull_parts)
  from assms(1) computeExtremes_mesh[OF ce] have "mesh_ok (live_faces s1) s1"
    by (simp add: hull_inv_def mesh_ok_extends)
  from simplex_inv[OF this c4 st] have "hull_inv (s3\<lparr>faces := faces s3 @ fs\<rparr>)" .
  moreover from fin have "topo_eq (s3\<lparr>faces := faces s3 @ fs\<rparr>) s'"
    by (rule topo_eq_for_each[rotated]) (rule topo_eq_assign_initial)
  ultimately show ?thesis by (simp add: topo_eq_views)
qed

lemma newFaces_update_views [simp]:
  "nxt (s\<lparr>newFaces := x\<rparr>) = nxt s" "twn (s\<lparr>newFaces := x\<rparr>) = twn s"
  "efc (s\<lparr>newFaces := x\<rparr>) = efc s"
  "face_edges (s\<lparr>newFaces := x\<rparr>) = face_edges s" "cycle3 (s\<lparr>newFaces := x\<rparr>) = cycle3 s"
  "paired L (s\<lparr>newFaces := x\<rparr>) = paired L s" "mesh_ok L (s\<lparr>newFaces := x\<rparr>) = mesh_ok L s"
  "live_faces (s\<lparr>newFaces := x\<rparr>) = live_faces s"
  "hull_inv (s\<lparr>newFaces := x\<rparr>) = hull_inv s"
proof -
  show a: "nxt (s\<lparr>newFaces := x\<rparr>) = nxt s" "twn (s\<lparr>newFaces := x\<rparr>) = twn s"
    "efc (s\<lparr>newFaces := x\<rparr>) = efc s"
    by (simp_all add: nxt_def twn_def efc_def fun_eq_iff)
  have fo: "fobjs (s\<lparr>newFaces := x\<rparr>) = fobjs s" "n_hedges (s\<lparr>newFaces := x\<rparr>) = n_hedges s"
    by simp_all
  show b: "face_edges (s\<lparr>newFaces := x\<rparr>) = face_edges s"
  proof
    fix f show "face_edges (s\<lparr>newFaces := x\<rparr>) f = face_edges s f"
      unfolding face_edges_def a fo ..
  qed
  show c: "cycle3 (s\<lparr>newFaces := x\<rparr>) = cycle3 s"
  proof
    fix f show "cycle3 (s\<lparr>newFaces := x\<rparr>) f = cycle3 s f"
      unfolding cycle3_def a fo ..
  qed
  show d: "paired L (s\<lparr>newFaces := x\<rparr>) = paired L s" for L
    by (simp add: paired_def a b fun_eq_iff)
  show m: "mesh_ok L (s\<lparr>newFaces := x\<rparr>) = mesh_ok L s" for L
    by (simp add: mesh_ok_def b c d)
  show l: "live_faces (s\<lparr>newFaces := x\<rparr>) = live_faces s"
    by (simp add: live_faces_def)
  show "hull_inv (s\<lparr>newFaces := x\<rparr>) = hull_inv s"
    by (simp add: hull_inv_def m l)
qed

lemma extends_faces_update [simp]: "extends s (s'\<lparr>faces := x\<rparr>) = extends s s'"
  by (simp add: extends_def)

lemma tri_faces_update [simp]: "tri (s\<lparr>faces := x\<rparr>) = tri s"
  by (simp add: tri_def fun_eq_iff)

text \<open>The state after \<^verbatim>\<open>addAdjoiningFace\<close>.\<close>

lemma addAdjoiningFace_Inr:
  assumes r: "addAdjoiningFace eye h s = Inr (s1, side)" and t: "twn s h = Some t"
    and h: "h < n_hedges s"
  shows "side = Some (n_hedges s)"
    "\<exists>sA. extends s sA \<and> tri sA (n_fobjs s) (n_hedges s) \<and>
       twn sA (n_hedges s) = None \<and> twn sA (n_hedges s + 1) = None \<and>
       twn sA (n_hedges s + 2) = None \<and>
       n_hedges sA = n_hedges s + 3 \<and> n_fobjs sA = n_fobjs s + 1 \<and> faces sA = faces s \<and>
       (\<forall>f. f \<noteq> n_fobjs s \<longrightarrow> fobjs sA f = fobjs s f) \<and>
       s1 = link (n_hedges s + 2) t (sA\<lparr>faces := faces s @ [n_fobjs s]\<rparr>)"
proof -
  from r obtain t0 where t0: "he_tail s h = Some t0"
    by (auto simp: addAdjoiningFace_def split: option.splits)
  from r t0 obtain sA g where fc: "Face_create eye t0 (he_head s h) s = Inr (sA, g)"
    by (cases "Face_create eye t0 (he_head s h) s")
      (auto simp: addAdjoiningFace_def bind_res_simps)
  note i = Face_create_Inr[OF fc]
  note x = Face_create_extends[OF fc]
  define sB where "sB = sA\<lparr>faces := faces sA @ [g]\<rparr>"
  have g1: "getEdge sB g (- 1) = Inr (Some (n_hedges s + 2))"
    by (simp add: getEdge_def sB_def i)
  have tw: "twin (hedges sB h) = Some t"
    using t h by (simp add: sB_def i twn_def)
  have g0: "getEdge (link (n_hedges s + 2) t sB) g 0 = Inr (Some (n_hedges s))"
    by (simp add: getEdge_def sB_def i)
  from r have "s1 = link (n_hedges s + 2) t sB \<and> side = Some (n_hedges s)"
    unfolding addAdjoiningFace_def t0 option.case fc bind_res_simps prod.case Let_def
      sB_def[symmetric] g1 tw setTwin_link g0
    by simp
  then show "side = Some (n_hedges s)"
    "\<exists>sA. extends s sA \<and> tri sA (n_fobjs s) (n_hedges s) \<and>
       twn sA (n_hedges s) = None \<and> twn sA (n_hedges s + 1) = None \<and>
       twn sA (n_hedges s + 2) = None \<and>
       n_hedges sA = n_hedges s + 3 \<and> n_fobjs sA = n_fobjs s + 1 \<and> faces sA = faces s \<and>
       (\<forall>f. f \<noteq> n_fobjs s \<longrightarrow> fobjs sA f = fobjs s f) \<and>
       s1 = link (n_hedges s + 2) t (sA\<lparr>faces := faces s @ [n_fobjs s]\<rparr>)"
    using x i(14,15,16) by (auto simp: sB_def twn_def intro!: exI[of _ sA])
qed

lemma extends_keeps: "extends s s' \<Longrightarrow> keeps s s'"
  by (simp add: extends_def keeps_def)

lemma keeps_views [simp]:
  "keeps s0 (link a b s) = keeps s0 s" "keeps s0 (s\<lparr>faces := x\<rparr>) = keeps s0 s"
  "keeps s0 (s\<lparr>newFaces := y\<rparr>) = keeps s0 s"
  by (simp_all add: keeps_def)

lemma keeps_cycle3:
  assumes "keeps s s'" "f < n_fobjs s" "cycle3 s f"
  shows "cycle3 s' f" "face_edges s' f = face_edges s f"
proof -
  from assms(3) obtain e0 e1 e2 where h: "face_edges s f = [e0, e1, e2]"
    "edge (fobjs s f) = Some e0"
    "nxt s e0 = Some e1" "nxt s e1 = Some e2" "nxt s e2 = Some e0"
    "e0 \<noteq> e1" "e1 \<noteq> e2" "e0 \<noteq> e2" "efc s e0 = f" "efc s e1 = f" "efc s e2 = f"
    "e0 < n_hedges s" "e1 < n_hedges s" "e2 < n_hedges s"
    by (rule cycle3_face_edges)
  from assms(1,2) h have h': "edge (fobjs s' f) = Some e0"
    "nxt s' e0 = Some e1" "nxt s' e1 = Some e2" "nxt s' e2 = Some e0"
    "efc s' e0 = f" "efc s' e1 = f" "efc s' e2 = f"
    "e0 < n_hedges s'" "e1 < n_hedges s'" "e2 < n_hedges s'"
    by (simp_all add: keeps_def)
  from h h' show "cycle3 s' f" unfolding cycle3_def by blast
  from h h' show "face_edges s' f = face_edges s f" by (simp add: face_edges_def)
qed

lemma paired_live: "paired (live_faces s) s e \<longleftrightarrow> (\<exists>t. twn s e = Some t \<and> twn s t = Some e \<and> live_e s t)"
  by (simp add: paired_def live_e_def)

lemma live_e_lt:
  assumes "\<forall>g \<in> live_faces s. g < n_fobjs s \<and> cycle3 s g" "live_e s e"
  shows "e < n_hedges s" "efc s e < n_fobjs s"
  using assms edge_of_face(2)[of s "efc s e" e] by (auto simp: live_e_def)

text \<open>One more triangle on top of a mesh: which edges are live.\<close>

lemma live_e_grown:
  assumes st: "\<forall>g \<in> live_faces s. g < n_fobjs s \<and> cycle3 s g"
    and x: "keeps s s2" and tr: "tri s2 (n_fobjs s) (n_hedges s)"
    and lf: "live_faces s2 = live_faces s \<union> {n_fobjs s}"
  shows "live_e s2 e \<longleftrightarrow> live_e s e \<or> e = n_hedges s \<or> e = n_hedges s + 1 \<or> e = n_hedges s + 2"
proof
  assume l: "live_e s2 e"
  show "live_e s e \<or> e = n_hedges s \<or> e = n_hedges s + 1 \<or> e = n_hedges s + 2"
  proof (cases "efc s2 e = n_fobjs s")
    case True
    with l tri_cycle3(2)[OF tr] show ?thesis by (auto simp: live_e_def)
  next
    case False
    with l lf have f: "efc s2 e \<in> live_faces s" and e: "e \<in> set (face_edges s2 (efc s2 e))"
      by (auto simp: live_e_def)
    from st f have fn: "efc s2 e < n_fobjs s" and c: "cycle3 s (efc s2 e)" by auto
    from e keeps_cycle3(2)[OF x fn c] have e': "e \<in> set (face_edges s (efc s2 e))" by simp
    from edge_of_face(1)[OF c e'] f e' show ?thesis by (simp add: live_e_def)
  qed
next
  assume "live_e s e \<or> e = n_hedges s \<or> e = n_hedges s + 1 \<or> e = n_hedges s + 2"
  then show "live_e s2 e"
  proof
    assume l: "live_e s e"
    from live_e_lt[OF st l] have lt: "e < n_hedges s" "efc s e < n_fobjs s" .
    from l st have c: "cycle3 s (efc s e)" by (auto simp: live_e_def)
    from x lt have "efc s2 e = efc s e" by (simp add: keeps_def)
    with l lf keeps_cycle3(2)[OF x lt(2) c] show ?thesis by (simp add: live_e_def)
  next
    assume "e = n_hedges s \<or> e = n_hedges s + 1 \<or> e = n_hedges s + 2"
    with tr tri_cycle3(2)[OF tr] lf show ?thesis
      by (auto simp: live_e_def tri_def)
  qed
qed

lemma fan_grow:
  assumes inv: "fan_inv s (h # rest) first prev"
    and th: "twn s h = Some t"
    and k: "keeps s s2" and tr: "tri s2 (n_fobjs s) (n_hedges s)"
    and lf: "live_faces s2 = live_faces s \<union> {n_fobjs s}"
    and tw: "\<And>e. e < n_hedges s + 3 \<Longrightarrow> twn s2 e =
      (if e = n_hedges s + 2 then Some t else if e = t then Some (n_hedges s + 2)
       else if e = n_hedges s then None else if e = n_hedges s + 1 then prev
       else if prev = Some e then Some (n_hedges s + 1) else twn s e)"
    and f': "first' = (if first = None then Some (n_hedges s) else first)"
  shows "fan_inv s2 rest first' (Some (n_hedges s))"
proof -
  define a where "a = n_hedges s"
  define g where "g = n_fobjs s"
  note tw = tw[folded a_def] and tr = tr[folded a_def g_def] and lf = lf[folded g_def]
  from inv have st: "\<forall>g \<in> live_faces s. g < n_fobjs s \<and> cycle3 s g"
    and dist: "distinct (h # rest)" and pend: "\<And>x. x \<in> set (h # rest) \<Longrightarrow> pending s x"
    and cov: "\<And>e. live_e s e \<Longrightarrow> paired (live_faces s) s e
        \<or> (\<exists>x \<in> set (h # rest). twn s x = Some e) \<or> open_edge s first prev e"
    and ends: "fan_ends s first prev"
    by (auto simp: fan_inv_def)
  from pend[of h] th have h: "h < a" "efc s h < g" "efc s h \<notin> live_faces s"
    "twn s t = Some h" "live_e s t"
    by (auto simp: pending_def a_def g_def)
  note lt = live_e_lt[OF st, folded a_def g_def]
  have t: "t < a" using lt(1)[OF h(5)] .
  have le: "live_e s2 e \<longleftrightarrow> live_e s e \<or> e = a \<or> e = a + 1 \<or> e = a + 2" for e
    using live_e_grown[OF st k tr[unfolded a_def g_def] lf[unfolded g_def], of e]
    by (simp add: a_def)
  have pe_facts: "twn s pe = None \<and> live_e s pe \<and> pe < a \<and> pe \<noteq> t \<and> first \<noteq> None"
    if "prev = Some pe" for pe
  proof -
    from ends that obtain fe where "first = Some fe" by (cases first) (auto simp: fan_ends_def)
    with ends that have p: "twn s pe = None" "live_e s pe" by (auto simp: fan_ends_def)
    with h(4) lt(1)[OF p(2)] \<open>first = Some fe\<close> show ?thesis by auto
  qed
  have old: "twn s2 e = twn s e" if "e < a" "e \<noteq> t" "prev \<noteq> Some e" for e
    using tw[of e] that by simp
  have new2: "twn s2 (a + 2) = Some t" using tw[of "a + 2"] by simp
  have newt: "twn s2 t = Some (a + 2)" using tw[of t] t by simp
  have new0: "twn s2 a = None" using tw[of a] t by simp
  have new1: "twn s2 (a + 1) = prev" using tw[of "a + 1"] t by simp
  have newp: "twn s2 pe = Some (a + 1)" if "prev = Some pe" for pe
    using tw[of pe] pe_facts[OF that] that by simp
  have nx: "nxt s2 e = nxt s e" "efc s2 e = efc s e" if "e < a" for e
    using k that by (simp_all add: keeps_def a_def)
  have cnt: "a \<le> n_hedges s2" "g \<le> n_fobjs s2"
    using k by (simp_all add: keeps_def a_def g_def)
  have st2: "\<forall>f \<in> live_faces s2. f < n_fobjs s2 \<and> cycle3 s2 f"
  proof
    fix f assume "f \<in> live_faces s2"
    with lf have "f \<in> live_faces s \<or> f = g" by auto
    then show "f < n_fobjs s2 \<and> cycle3 s2 f"
    proof
      assume f: "f \<in> live_faces s"
      with st have "f < n_fobjs s" "cycle3 s f" by auto
      with keeps_cycle3(1)[OF k] cnt(2) show ?thesis by (simp add: g_def)
    next
      assume "f = g"
      with tr tri_cycle3(1)[OF tr] show ?thesis by (simp add: tri_def)
    qed
  qed
  have pend2: "pending s2 x" if x: "x \<in> set rest" for x
  proof -
    from pend[of x] x obtain y where p: "x < a" "efc s x < g" "efc s x \<notin> live_faces s"
      "twn s x = Some y" "twn s y = Some x" "live_e s y"
      by (auto simp: pending_def a_def g_def)
    have "x \<noteq> t" using p(3) h(5) by (auto simp: live_e_def)
    moreover have "prev \<noteq> Some x" using pe_facts[of x] p(3) by (auto simp: live_e_def)
    ultimately have 1: "twn s2 x = Some y" using old[OF p(1)] p(4) by simp
    have y: "y < a" using lt(1)[OF p(6)] .
    have "y \<noteq> t" using p(5) h(4) dist x by auto
    moreover have "prev \<noteq> Some y" using pe_facts[of y] p(5) by auto
    ultimately have 2: "twn s2 y = Some x" using old[OF y] p(5) by simp
    have 3: "live_e s2 y" using le p(6) by simp
    have 4: "efc s2 x \<notin> live_faces s2" using nx(2)[OF p(1)] p(2,3) lf by simp
    from 1 2 3 4 p(1,2) cnt nx(2)[OF p(1)] show ?thesis
      by (auto simp: pending_def)
  qed
  have pair2: "paired (live_faces s2) s2 e" if e: "paired (live_faces s) s e" "live_e s e" for e
  proof -
    from e(1) obtain y where p: "twn s e = Some y" "twn s y = Some e" "live_e s y"
      by (auto simp: paired_live)
    have "e \<noteq> t" using p(1,3) th h(3,4) by (auto simp: live_e_def)
    moreover have "prev \<noteq> Some e" using pe_facts[of e] p(1) by auto
    ultimately have 1: "twn s2 e = Some y" using old[OF lt(1)[OF e(2)]] p(1) by simp
    have "y \<noteq> t" using p(2) h(3,4) e(2) by (auto simp: live_e_def)
    moreover have "prev \<noteq> Some y" using pe_facts[of y] p(2) by auto
    ultimately have 2: "twn s2 y = Some e" using old[OF lt(1)[OF p(3)]] p(2) by simp
    from 1 2 p(3) le show ?thesis by (auto simp: paired_live)
  qed
  have cov2: "paired (live_faces s2) s2 e \<or> (\<exists>x \<in> set rest. twn s2 x = Some e)
      \<or> open_edge s2 first' (Some a) e" if e: "live_e s2 e" for e
  proof -
    from e le consider "e = a" | "e = a + 1" | "e = a + 2" | "live_e s e" by blast
    then show ?thesis
    proof cases
      case 1
      then show ?thesis by (simp add: open_edge_def f')
    next
      case 2
      show ?thesis
      proof (cases prev)
        case None
        with ends have "first = None" by (cases first) (auto simp: fan_ends_def)
        with tr 2 show ?thesis by (simp add: open_edge_def f' tri_def a_def)
      next
        case (Some pe)
        from new1 newp[OF Some] pe_facts[OF Some] le 2 Some show ?thesis
          by (auto simp: paired_live)
      qed
    next
      case 3
      with new2 newt h(5) le show ?thesis by (auto simp: paired_live)
    next
      case 4
      from cov[OF 4] show ?thesis
      proof (elim disjE bexE)
        assume "paired (live_faces s) s e"
        from pair2[OF this 4] show ?thesis by simp
      next
        fix x assume x: "x \<in> set (h # rest)" "twn s x = Some e"
        show ?thesis
        proof (cases "x = h")
          case True
          with x th have "e = t" by simp
          with newt new2 le show ?thesis by (auto simp: paired_live)
        next
          case False
          with x have xr: "x \<in> set rest" by simp
          from pend2[OF xr] pend[OF x(1)] x(2) have "twn s2 x = Some e"
          proof -
            from pend[OF x(1)] have p: "x < a" "efc s x \<notin> live_faces s"
              by (auto simp: pending_def a_def)
            have "x \<noteq> t" using p(2) h(5) by (auto simp: live_e_def)
            moreover have "prev \<noteq> Some x" using pe_facts[of x] p(2) by (auto simp: live_e_def)
            ultimately show ?thesis using old[OF p(1)] x(2) by simp
          qed
          with xr show ?thesis by blast
        qed
      next
        assume "open_edge s first prev e"
        then obtain fe pe where o: "first = Some fe" "prev = Some pe"
          "nxt s fe = Some e \<or> e = pe"
          by (auto simp: open_edge_def)
        from ends o obtain b where b: "fe < a" "nxt s fe = Some b" "b \<noteq> pe"
          by (auto simp: fan_ends_def a_def)
        from o(3) show ?thesis
        proof
          assume "nxt s fe = Some e"
          with nx(1)[OF b(1)] o(1) show ?thesis by (simp add: open_edge_def f')
        next
          assume "e = pe"
          with newp[OF o(2)] new1 o(2) le show ?thesis by (auto simp: paired_live)
        qed
      qed
    qed
  qed
  have ends2: "fan_ends s2 first' (Some a)"
  proof (cases first)
    case None
    with tr new0 new1 ends le cnt show ?thesis
      by (auto simp: fan_ends_def f' tri_def a_def[symmetric])
  next
    case (Some fe)
    with ends obtain pe b where e: "prev = Some pe" "fe < a" "nxt s fe = Some b" "b \<noteq> pe"
      "twn s b = None" "twn s pe = None" "live_e s b" "live_e s pe"
      by (auto simp: fan_ends_def a_def)
    have b: "b < a" using lt(1)[OF e(7)] .
    have "b \<noteq> t" using e(5) h(4) by auto
    with old[OF b] e(1,4,5) have "twn s2 b = None" by simp
    with Some e nx(1)[OF e(2)] b new0 le cnt show ?thesis
      by (auto simp: fan_ends_def f')
  qed
  from st2 dist pend2 cov2 ends2 show ?thesis
    unfolding fan_inv_def a_def by auto
qed

lemma fan_views [simp]:
  "live_e (s\<lparr>newFaces := x\<rparr>) = live_e s" "pending (s\<lparr>newFaces := x\<rparr>) = pending s"
  "open_edge (s\<lparr>newFaces := x\<rparr>) = open_edge s" "fan_ends (s\<lparr>newFaces := x\<rparr>) = fan_ends s"
  "fan_inv (s\<lparr>newFaces := x\<rparr>) = fan_inv s"
proof -
  show a: "live_e (s\<lparr>newFaces := x\<rparr>) = live_e s" by (simp add: live_e_def fun_eq_iff)
  show b: "pending (s\<lparr>newFaces := x\<rparr>) = pending s" by (simp add: pending_def fun_eq_iff a)
  show c: "open_edge (s\<lparr>newFaces := x\<rparr>) = open_edge s" by (simp add: open_edge_def fun_eq_iff)
  show d: "fan_ends (s\<lparr>newFaces := x\<rparr>) = fan_ends s" by (simp add: fan_ends_def fun_eq_iff a cong: option.case_cong)
  show "fan_inv (s\<lparr>newFaces := x\<rparr>) = fan_inv s" by (simp add: fan_inv_def fun_eq_iff a b c d)
qed

text \<open>One turn of the loop of \<^verbatim>\<open>addNewFaces\<close>.\<close>

lemma fan_step:
  assumes inv: "fan_inv s (h # rest) first prev"
    and body: "addAdjoiningFace eye h s = Inr (s1, Some se)"
    and join: "(if first = None then Inr (s1, Some se)
        else bind_res (setTwin (e_next (hedges s1 se)) prev s1) (\<lambda>s2. Inr (s2, first)))
      = Inr (s2, first')"
  shows "fan_inv s2 rest first' (Some se)"
proof -
  define a where "a = n_hedges s"
  define g where "g = n_fobjs s"
  from inv have st: "\<forall>g \<in> live_faces s. g < n_fobjs s \<and> cycle3 s g"
    and ph: "pending s h" and ends: "fan_ends s first prev"
    by (auto simp: fan_inv_def)
  from ph obtain t where t: "twn s h = Some t" "h < n_hedges s" "live_e s t"
    and tt: "twn s t = Some h"
    by (auto simp: pending_def)
  have tl: "t < a" using live_e_lt(1)[OF st t(3)] by (simp add: a_def)
  from addAdjoiningFace_Inr[OF body t(1,2)] obtain sA where se: "se = a"
    and x: "extends s sA" and tr: "tri sA g a"
    and tn: "twn sA a = None" "twn sA (a + 1) = None" "twn sA (a + 2) = None"
    and fa: "faces sA = faces s" and fo: "\<And>f. f \<noteq> g \<Longrightarrow> fobjs sA f = fobjs s f"
    and s1: "s1 = link (a + 2) t (sA\<lparr>faces := faces s @ [g]\<rparr>)"
    by (auto simp: a_def g_def)
  have told: "twn sA e = twn s e" if "e < a" for e
    using x that by (simp add: extends_def a_def)
  have vis: "mark (fobjs sA g) = Visible" using tr by (simp add: tri_def)
  have gl: "g \<notin> live_faces s" using st by (auto simp: g_def)
  have "f \<in> live_faces s1 \<longleftrightarrow> f \<in> live_faces s \<union> {g}" for f
    unfolding s1 using vis fo[of f] gl by (cases "f = g") (auto simp: live_faces_def)
  then have lf1: "live_faces s1 = live_faces s \<union> {g}" by blast
  have k1: "keeps s s1" unfolding s1 using extends_keeps[OF x] by simp
  have tr1: "tri s1 g a" unfolding s1 using tr by simp
  have nx1: "e_next (hedges s1 a) = Some (a + 1)"
    using tr1 by (simp add: tri_def nxt_def)
  show ?thesis
  proof (cases first)
    case None
    with ends have pn: "prev = None" by (simp add: fan_ends_def)
    from join None have s2: "s2 = s1" "first' = Some se" by simp_all
    have "fan_inv s1 rest (if first = None then Some (n_hedges s) else first) (Some (n_hedges s))"
      using inv t(1) k1 tr1[unfolded a_def g_def] lf1[unfolded g_def]
    proof (rule fan_grow)
      fix e assume "e < n_hedges s + 3"
      then show "twn s1 e = (if e = n_hedges s + 2 then Some t else if e = t then Some (n_hedges s + 2)
         else if e = n_hedges s then None else if e = n_hedges s + 1 then prev
         else if prev = Some e then Some (n_hedges s + 1) else twn s e)"
        unfolding s1 a_def[symmetric] using tn told[of e] tl pn by auto
    qed simp
    with None s2 se show ?thesis by (simp add: a_def)
  next
    case (Some fe)
    with ends obtain pe where pe: "prev = Some pe" "twn s pe = None" "live_e s pe"
      by (auto simp: fan_ends_def)
    have pl: "pe < a" using live_e_lt(1)[OF st pe(3)] by (simp add: a_def)
    from join Some have s2: "s2 = link (a + 1) pe s1" "first' = first"
      by (simp_all add: se nx1 pe(1) setTwin_link bind_res_simps)
    have "fan_inv s2 rest (if first = None then Some (n_hedges s) else first) (Some (n_hedges s))"
      using inv t(1)
    proof (rule fan_grow)
      show "keeps s s2" unfolding s2 using k1 by simp
      show "tri s2 (n_fobjs s) (n_hedges s)" unfolding s2 using tr1 by (simp add: a_def g_def)
      show "live_faces s2 = live_faces s \<union> {n_fobjs s}"
        unfolding s2 using lf1 by (simp add: live_faces_def g_def)
      fix e assume "e < n_hedges s + 3"
      then show "twn s2 e = (if e = n_hedges s + 2 then Some t else if e = t then Some (n_hedges s + 2)
         else if e = n_hedges s then None else if e = n_hedges s + 1 then prev
         else if prev = Some e then Some (n_hedges s + 1) else twn s e)"
        unfolding s2 s1 a_def[symmetric] using tn told[of e] tl pl pe(1,2) tt told[of pe]
        by auto
    qed simp
    with Some s2 se show ?thesis by (simp add: a_def)
  qed
qed

lemma addNewFaces_loop_inv:
  assumes "fan_inv s hz first prev"
    and "addNewFaces_loop eye hz first prev s = Inr (s', first', prev')"
  shows "fan_inv s' [] first' prev' \<and> (first \<noteq> None \<or> hz \<noteq> [] \<longrightarrow> first' \<noteq> None)"
  using assms
proof (induction hz arbitrary: s first prev)
  case Nil
  then show ?case by simp
next
  case (Cons h rest)
  from Cons.prems(2) obtain s1 side where
    body: "addAdjoiningFace eye h s = Inr (s1, side)"
    by (cases "addAdjoiningFace eye h s") (auto simp: bind_res_simps)
  from Cons.prems(2) body obtain se where side: "side = Some se"
    by (cases side) (auto simp: bind_res_simps)
  define join where "join = (if first = None then Inr (s1, Some se)
        else bind_res (setTwin (e_next (hedges s1 se)) prev s1) (\<lambda>s2. Inr (s2, first)))"
  from Cons.prems(2) body side obtain s2 first2 where j: "join = Inr (s2, first2)"
    by (cases join) (auto simp: bind_res_simps join_def)
  have f2: "first2 \<noteq> None"
    using j by (auto simp: join_def bind_res_def split: if_splits sum.splits)
  from Cons.prems(2) body side j
  have run: "addNewFaces_loop eye rest first2 (Some se)
      (s2\<lparr>newFaces := newFaces s2 @ [e_face (hedges s2 se)]\<rparr>) = Inr (s', first', prev')"
    by (simp add: bind_res_simps join_def[symmetric] Let_def)
  from fan_step[OF Cons.prems(1) body[unfolded side] j[unfolded join_def]]
  have "fan_inv (s2\<lparr>newFaces := newFaces s2 @ [e_face (hedges s2 se)]\<rparr>) rest first2 (Some se)"
    by simp
  from Cons.IH[OF this run] f2 show ?case by simp
qed

lemma fan_close:
  assumes inv: "fan_inv s [] (Some fe) prev"
    and run: "setTwin (e_next (hedges s fe)) prev s = Inr s'"
  shows "hull_inv s'"
proof -
  from inv have st: "\<forall>g \<in> live_faces s. g < n_fobjs s \<and> cycle3 s g"
    and cov: "\<And>e. live_e s e \<Longrightarrow> paired (live_faces s) s e \<or> open_edge s (Some fe) prev e"
    and ends: "fan_ends s (Some fe) prev"
    by (auto simp: fan_inv_def)
  from ends obtain pe b where e: "prev = Some pe" "nxt s fe = Some b" "b \<noteq> pe"
    "twn s b = None" "twn s pe = None" "live_e s b" "live_e s pe"
    by (auto simp: fan_ends_def)
  from run e(1,2) have s': "s' = link b pe s"
    by (simp add: nxt_def setTwin_link)
  have lf: "live_faces s' = live_faces s" by (simp add: s' live_faces_def)
  have le: "live_e s' = live_e s" by (simp add: live_e_def fun_eq_iff lf) (simp add: s')
  show ?thesis
    unfolding hull_inv_def mesh_ok_def lf
  proof (intro ballI conjI)
    fix f assume f: "f \<in> live_faces s"
    with st show "f < n_fobjs s'" "cycle3 s' f" by (simp_all add: s')
    fix x assume "x \<in> set (face_edges s' f)"
    then have x: "x \<in> set (face_edges s f)" by (simp add: s')
    from st f have c: "cycle3 s f" by simp
    from edge_of_face(1)[OF c x] f x have lx: "live_e s x" by (simp add: live_e_def)
    from cov[OF lx] show "paired (live_faces s) s' x"
    proof
      assume "paired (live_faces s) s x"
      then obtain y where y: "twn s x = Some y" "twn s y = Some x" "live_e s y"
        by (auto simp: paired_live)
      with e(4,5) have "x \<noteq> b" "x \<noteq> pe" "y \<noteq> b" "y \<noteq> pe" by auto
      with y have "twn s' x = Some y" "twn s' y = Some x" by (simp_all add: s')
      with y(3) le show ?thesis using paired_live[of s' x] lf by auto
    next
      assume "open_edge s (Some fe) prev x"
      with e(1,2) have "x = b \<or> x = pe" by (auto simp: open_edge_def)
      then show ?thesis
      proof
        assume "x = b"
        with e(3,7) le have "twn s' x = Some pe" "twn s' pe = Some x" "live_e s' pe"
          by (simp_all add: s')
        then show ?thesis using paired_live[of s' x] lf by auto
      next
        assume "x = pe"
        with e(3,6) le have "twn s' x = Some b" "twn s' b = Some x" "live_e s' b"
          by (simp_all add: s')
        then show ?thesis using paired_live[of s' x] lf by auto
      qed
    qed
  qed
qed

lemma addNewFaces_inv:
  assumes "fan_inv s hz None None" "addNewFaces eye hz s = Inr s'"
  shows "hull_inv s'"
proof -
  from assms(2) obtain s1 first prev where
    l: "addNewFaces_loop eye hz None None (s\<lparr>newFaces := []\<rparr>) = Inr (s1, first, prev)"
    by (cases "addNewFaces_loop eye hz None None (s\<lparr>newFaces := []\<rparr>)")
      (auto simp: addNewFaces_def bind_res_simps)
  from assms(2) l obtain fe where fe: "first = Some fe"
    and c: "setTwin (e_next (hedges s1 fe)) prev s1 = Inr s'"
    by (cases first) (auto simp: addNewFaces_def bind_res_simps)
  from assms(1) have "fan_inv (s\<lparr>newFaces := []\<rparr>) hz None None" by simp
  from addNewFaces_loop_inv[OF this l] fe have "fan_inv s1 [] (Some fe) prev" by simp
  then show ?thesis using c by (rule fan_close)
qed

lemma mark_cases: "mark (fobjs s f) \<noteq> Visible \<longleftrightarrow> mark (fobjs s f) = Deleted"
  by (cases "mark (fobjs s f)") simp_all

lemma grows_refl [simp]: "grows s s"
  by (simp add: grows_def)

lemma grows_trans: "grows s s1 \<Longrightarrow> grows s1 s2 \<Longrightarrow> grows s s2"
  by (auto simp: grows_def intro: static_eq_trans)

lemma grows_views:
  assumes "grows s s'"
  shows "twn s' = twn s" "efc s' = efc s" "nxt s' = nxt s" "face_edges s' = face_edges s"
    "sees s' = sees s" "todo s' = todo s" "mesh_ok L s' = mesh_ok L s"
    "twin_gone z s' = twin_gone z s" "faces s' = faces s" "n_hedges s' = n_hedges s"
    "n_fobjs s' = n_fobjs s" "cycle3 s' = cycle3 s"
proof -
  from assms have st: "static_eq s s'" by (simp add: grows_def)
  note v = static_eq_views[OF st]
  show "twn s' = twn s" "efc s' = efc s" "nxt s' = nxt s" "face_edges s' = face_edges s"
    "faces s' = faces s" "n_hedges s' = n_hedges s" "n_fobjs s' = n_fobjs s"
    "cycle3 s' = cycle3 s"
    by (rule v)+
  show "sees s' = sees s" by (simp add: sees_def fun_eq_iff v)
  show "todo s' = todo s"
  proof (intro ext)
    fix c e show "todo s' c e = todo s c e" unfolding todo_def v(1) ..
  qed
  show "mesh_ok L s' = mesh_ok L s" by (rule static_eq_mesh[OF st])
  show "twin_gone z s' = twin_gone z s" by (simp add: twin_gone_def fun_eq_iff v)
qed

lemma grows_keeps_deleted: "grows s s' \<Longrightarrow> mark (fobjs s f) = Deleted \<Longrightarrow> mark (fobjs s' f) = Deleted"
  by (simp add: grows_def)

lemma grows_was_visible: "grows s s' \<Longrightarrow> mark (fobjs s' f) = Visible \<Longrightarrow> mark (fobjs s f) = Visible"
  by (cases "mark (fobjs s f)") (auto simp: grows_def)

lemma twin_gone_mono: "grows s1 s2 \<Longrightarrow> twin_gone s1 s x \<Longrightarrow> twin_gone s2 s x"
  by (auto simp: twin_gone_def grows_def)

text \<open>The edges that the loop of \<^verbatim>\<open>computeHorizon\<close> still has to look at.\<close>

lemma todo_last: "nxt s e = Some c \<Longrightarrow> todo s c e = [e]"
  by (simp add: todo_def)

lemma todo_next:
  assumes c3: "cycle3 s f" and e: "e \<in> set (face_edges s f)" and c: "c \<in> set (face_edges s f)"
    and n: "nxt s e = Some e1" and ne: "e1 \<noteq> c"
  shows "todo s c e = e # todo s c e1" "e \<notin> set (todo s c e1)" "e1 \<in> set (face_edges s f)"
    "set (todo s c e1) \<subseteq> set (face_edges s f)"
proof -
  from c3 obtain a0 a1 a2 where h: "face_edges s f = [a0, a1, a2]"
    "nxt s a0 = Some a1" "nxt s a1 = Some a2" "nxt s a2 = Some a0"
    "a0 \<noteq> a1" "a1 \<noteq> a2" "a0 \<noteq> a2"
    by (rule cycle3_face_edges)
  from e c h(1) have "e = a0 \<or> e = a1 \<or> e = a2" "c = a0 \<or> c = a1 \<or> c = a2" by auto
  then show "todo s c e = e # todo s c e1" "e \<notin> set (todo s c e1)" "e1 \<in> set (face_edges s f)"
    "set (todo s c e1) \<subseteq> set (face_edges s f)"
    using n ne h by (auto simp: todo_def)
qed

lemma todo_all:
  assumes c3: "cycle3 s f" and e: "edge (fobjs s f) = Some e"
  shows "set (todo s e e) = set (face_edges s f)"
proof -
  from c3 obtain a0 a1 a2 where h: "face_edges s f = [a0, a1, a2]" "edge (fobjs s f) = Some a0"
    "nxt s a0 = Some a1" "nxt s a1 = Some a2" "nxt s a2 = Some a0"
    "a0 \<noteq> a1" "a1 \<noteq> a2" "a0 \<noteq> a2"
    by (rule cycle3_face_edges)
  with e show ?thesis by (auto simp: todo_def)
qed

lemma todo_others:
  assumes c3: "cycle3 s f" and c: "c \<in> set (face_edges s f)" and n: "nxt s c = Some e"
  shows "set (face_edges s f) = insert c (set (todo s c e))" "e \<in> set (face_edges s f)"
proof -
  from c3 obtain a0 a1 a2 where h: "face_edges s f = [a0, a1, a2]"
    "nxt s a0 = Some a1" "nxt s a1 = Some a2" "nxt s a2 = Some a0"
    "a0 \<noteq> a1" "a1 \<noteq> a2" "a0 \<noteq> a2"
    by (rule cycle3_face_edges)
  from c h(1) have "c = a0 \<or> c = a1 \<or> c = a2" by auto
  then show "set (face_edges s f) = insert c (set (todo s c e))" "e \<in> set (face_edges s f)"
    using n h by (auto simp: todo_def)
qed

lemma hpost_skip:
  assumes "twin_gone s s e"
  shows "hpost L p s s [] {e} {} {}"
  using assms by (auto simp: hpost_def newly_def)

lemma hpost_add:
  assumes "efc s e \<in> L" "e \<in> set (face_edges s (efc s e))" "twn s e = Some y"
    "\<not> sees s p (efc s y)" "mark (fobjs s (efc s y)) = Visible"
  shows "hpost L p s s [e] {e} {} {}"
  using assms by (auto simp: hpost_def newly_def)

lemma hpost_call:
  assumes h: "hpost L p s s1 new {} {y} {g}"
    and g: "sees s p g" "mark (fobjs s1 g) = Deleted" "efc s y = g"
    and tw: "twn s e = Some y" "twn s y = Some e" "mark (fobjs s (efc s e)) = Deleted"
  shows "hpost L p s s1 new {e} {} {}"
proof -
  from h have gr: "grows s s1" by (simp add: hpost_def)
  have ty: "twin_gone s1 s y"
    using tw grows_keeps_deleted[OF gr] by (auto simp: twin_gone_def)
  have te: "twin_gone s1 s e" using tw(1) g(2,3) by (auto simp: twin_gone_def)
  have a: "newly s s1 (efc s x)" "efc s x \<in> L" "x \<in> set (face_edges s (efc s x))"
    "\<exists>y. twn s x = Some y \<and> \<not> sees s p (efc s y) \<and> mark (fobjs s1 (efc s y)) = Visible"
    if "x \<in> set new" for x
    using h that unfolding hpost_def by blast+
  have b: "k \<in> L" "k = g \<or> sees s p k"
    "\<And>x. x \<in> set (face_edges s k) \<Longrightarrow> x = y \<or> x \<in> set new \<or> twin_gone s1 s x"
    if "newly s s1 k" for k
    using h that unfolding hpost_def by blast+
  show ?thesis
    unfolding hpost_def
  proof (intro conjI ballI allI impI)
    show "grows s s1" by (rule gr)
    from h show "distinct new" by (simp add: hpost_def)
  next
    fix x assume x: "x \<in> set new"
    from a[OF x] show "newly s s1 (efc s x) \<or> x \<in> {e}" "efc s x \<in> L"
      "x \<in> set (face_edges s (efc s x))"
      "\<exists>y. twn s x = Some y \<and> \<not> sees s p (efc s y) \<and> mark (fobjs s1 (efc s y)) = Visible"
      by blast+
  next
    fix k assume k: "newly s s1 k"
    from b(1,2)[OF k] g(1) show "k \<in> L" "k \<in> {} \<or> sees s p k" by auto
    fix x assume "x \<in> set (face_edges s k)"
    from b(3)[OF k this] ty show "x \<in> {} \<or> x \<in> set new \<or> twin_gone s1 s x" by auto
  next
    fix x assume "x \<in> {e}"
    with te show "x \<in> set new \<or> twin_gone s1 s x" by simp
  qed
qed

lemma hpost_enter:
  assumes st: "static_eq s s2"
    and mk: "\<And>g. mark (fobjs s2 g) = (if g = f then Deleted else mark (fobjs s g))"
    and vis: "mark (fobjs s f) = Visible" and fL: "f \<in> L" and c3: "cycle3 s f"
    and h: "hpost L p s2 s' new T {} {}"
    and T: "T \<subseteq> set (face_edges s f)" "set (face_edges s f) \<subseteq> T \<union> X"
  shows "hpost L p s s' new {} X {f}" "mark (fobjs s' f) = Deleted"
proof -
  have g2: "grows s s2" using st mk by (simp add: grows_def)
  from h have g': "grows s2 s'" by (simp add: hpost_def)
  note v = grows_views[OF g2]
  have nw: "newly s s' g \<longleftrightarrow> g = f \<or> newly s2 s' g" for g
    using mk[of g] vis grows_keeps_deleted[OF g', of f] by (auto simp: newly_def)
  show "mark (fobjs s' f) = Deleted" using nw[of f] by (simp add: newly_def)
  have Tf: "efc s x = f" if "x \<in> T" for x
    using edge_of_face(1)[OF c3] T(1) that by auto
  show "hpost L p s s' new {} X {f}"
    unfolding hpost_def
  proof (intro conjI ballI allI impI)
    show "grows s s'" using g2 g' by (rule grows_trans)
    from h show "distinct new" by (simp add: hpost_def)
  next
    fix x assume x: "x \<in> set new"
    with h have a: "newly s2 s' (efc s x) \<or> x \<in> T" "efc s x \<in> L"
      "x \<in> set (face_edges s (efc s x))"
      "\<exists>y. twn s x = Some y \<and> \<not> sees s p (efc s y) \<and> mark (fobjs s' (efc s y)) = Visible"
      unfolding hpost_def v by blast+
    from a(1) Tf nw show "newly s s' (efc s x) \<or> x \<in> {}" by auto
    from a show "efc s x \<in> L" "x \<in> set (face_edges s (efc s x))"
      "\<exists>y. twn s x = Some y \<and> \<not> sees s p (efc s y) \<and> mark (fobjs s' (efc s y)) = Visible"
      by blast+
  next
    fix g assume g: "newly s s' g"
    show "g \<in> L" "g \<in> {f} \<or> sees s p g"
      using g nw[of g] fL h unfolding hpost_def v by auto
    fix x assume x: "x \<in> set (face_edges s g)"
    show "x \<in> X \<or> x \<in> set new \<or> twin_gone s' s x"
    proof (cases "g = f")
      case True
      with x T(2) h show ?thesis unfolding hpost_def v by blast
    next
      case False
      with g nw[of g] have "newly s2 s' g" by simp
      with x h show ?thesis unfolding hpost_def v by blast
    qed
  qed simp
qed

lemma hpost_seq:
  assumes h1: "hpost L p s s1 new1 T1 {} {}" and h2: "hpost L p s1 s' new2 T2 {} {}"
    and dis: "T1 \<inter> T2 = {}" and del: "\<And>x. x \<in> T1 \<union> T2 \<Longrightarrow> mark (fobjs s (efc s x)) = Deleted"
  shows "hpost L p s s' (new1 @ new2) (T1 \<union> T2) {} {}"
proof -
  from h1 have g1: "grows s s1" by (simp add: hpost_def)
  from h2 have g2: "grows s1 s'" by (simp add: hpost_def)
  note v = grows_views[OF g1]
  note kd1 = grows_keeps_deleted[OF g1] and kd2 = grows_keeps_deleted[OF g2]
  note wv1 = grows_was_visible[OF g1]
  have a1: "newly s s1 (efc s x) \<or> x \<in> T1" "efc s x \<in> L" "x \<in> set (face_edges s (efc s x))"
    "\<exists>y. twn s x = Some y \<and> \<not> sees s p (efc s y) \<and> mark (fobjs s1 (efc s y)) = Visible"
    if "x \<in> set new1" for x
    using h1 that unfolding hpost_def by blast+
  have a2: "newly s1 s' (efc s x) \<or> x \<in> T2" "efc s x \<in> L" "x \<in> set (face_edges s (efc s x))"
    "\<exists>y. twn s x = Some y \<and> \<not> sees s p (efc s y) \<and> mark (fobjs s' (efc s y)) = Visible"
    if "x \<in> set new2" for x
    using h2 that unfolding hpost_def v by blast+
  have b1: "g \<in> L" "sees s p g" "\<And>x. x \<in> set (face_edges s g) \<Longrightarrow> x \<in> set new1 \<or> twin_gone s1 s x"
    if "newly s s1 g" for g
    using h1 that unfolding hpost_def by blast+
  have b2: "g \<in> L" "sees s p g" "\<And>x. x \<in> set (face_edges s g) \<Longrightarrow> x \<in> set new2 \<or> twin_gone s' s x"
    if "newly s1 s' g" for g
    using h2 that unfolding hpost_def v by blast+
  have c1: "x \<in> set new1 \<or> twin_gone s1 s x" if "x \<in> T1" for x
    using h1 that unfolding hpost_def by blast
  have c2: "x \<in> set new2 \<or> twin_gone s' s x" if "x \<in> T2" for x
    using h2 that unfolding hpost_def v by blast
  have split: "newly s s' g \<Longrightarrow> newly s s1 g \<or> newly s1 s' g" for g
    by (cases "mark (fobjs s1 g)") (auto simp: newly_def)
  show ?thesis
    unfolding hpost_def
  proof (intro conjI ballI allI impI)
    show "grows s s'" using g1 g2 by (rule grows_trans)
    have "x \<notin> set new2" if x: "x \<in> set new1" for x
    proof
      assume y: "x \<in> set new2"
      from a1(1)[OF x] a2(1)[OF y] dis del[of x] kd1[of "efc s x"]
      show False by (auto simp: newly_def)
    qed
    moreover from h1 h2 have "distinct new1" "distinct new2" by (simp_all add: hpost_def)
    ultimately show "distinct (new1 @ new2)" by auto
  next
    fix x assume "x \<in> set (new1 @ new2)"
    then have x: "x \<in> set new1 \<or> x \<in> set new2" by simp
    then show "newly s s' (efc s x) \<or> x \<in> T1 \<union> T2"
    proof
      assume "x \<in> set new1"
      from a1(1)[OF this] kd2 show ?thesis by (auto simp: newly_def)
    next
      assume "x \<in> set new2"
      from a2(1)[OF this] wv1 show ?thesis by (auto simp: newly_def)
    qed
    from x a1(2,3) a2(2,3) show "efc s x \<in> L" "x \<in> set (face_edges s (efc s x))" by blast+
    from x show "\<exists>y. twn s x = Some y \<and> \<not> sees s p (efc s y) \<and> mark (fobjs s' (efc s y)) = Visible"
    proof
      assume "x \<in> set new1"
      from a1(4)[OF this] obtain y where y: "twn s x = Some y" "\<not> sees s p (efc s y)"
        "mark (fobjs s1 (efc s y)) = Visible" by blast
      have "mark (fobjs s' (efc s y)) = Visible"
      proof (rule ccontr)
        assume "mark (fobjs s' (efc s y)) \<noteq> Visible"
        with y(3) have "newly s1 s' (efc s y)" by (simp add: newly_def mark_cases)
        from b2(2)[OF this] y(2) show False by simp
      qed
      with y show ?thesis by blast
    next
      assume "x \<in> set new2"
      from a2(4)[OF this] show ?thesis .
    qed
  next
    fix g assume g: "newly s s' g"
    from split[OF g] b1(1,2) b2(1,2) show "g \<in> L" "g \<in> {} \<or> sees s p g" by blast+
    fix x assume x: "x \<in> set (face_edges s g)"
    from split[OF g] show "x \<in> {} \<or> x \<in> set (new1 @ new2) \<or> twin_gone s' s x"
    proof
      assume "newly s s1 g"
      from b1(3)[OF this x] twin_gone_mono[OF g2] show ?thesis by auto
    next
      assume "newly s1 s' g"
      from b2(3)[OF this x] show ?thesis by auto
    qed
  next
    fix x assume "x \<in> T1 \<union> T2"
    then show "x \<in> set (new1 @ new2) \<or> twin_gone s' s x"
      using c1 c2 twin_gone_mono[OF g2] by auto
  qed
qed

lemma set_mark_views:
  "static_eq s (set_mark f m s)"
  "mark (fobjs (set_mark f m s) g) = (if g = f then m else mark (fobjs s g))"
  by (simp_all add: static_eq_def set_mark_def)

lemma getEdge_0: "getEdge s f 0 = Inr (edge (fobjs s f))"
  by (simp add: getEdge_def)

lemma mesh_ok_paired:
  assumes "mesh_ok L s" "f \<in> L" "e \<in> set (face_edges s f)"
  obtains y where "twn s e = Some y" "twn s y = Some e" "efc s y \<in> L"
    "y \<in> set (face_edges s (efc s y))"
  using assms unfolding mesh_ok_def paired_def by blast

lemma computeHorizon_step:
  assumes Q: "\<And>c e f s hz s' hz'. \<lbrakk>mesh_ok L s; f \<in> L; c \<in> set (face_edges s f);
        e \<in> set (face_edges s f); mark (fobjs s f) = Deleted;
        horizon_loop n k p (Some c) (Some e) (s, hz) = Inr (s', hz')\<rbrakk>
      \<Longrightarrow> \<exists>new. hz' = hz @ new \<and> hpost L p s s' new (set (todo s c e)) {} {}"
    and m: "mesh_ok L s" and f: "f \<in> L" and vis: "mark (fobjs s f) = Visible"
    and run: "computeHorizon (Suc n) k p crossEdge f (s, hz) = Inr (s', hz')"
    and ce: "\<And>c. crossEdge = Some c \<Longrightarrow> c \<in> set (face_edges s f)"
  shows "\<exists>new. hz' = hz @ new \<and>
    hpost L p s s' new {} (case crossEdge of None \<Rightarrow> {} | Some c \<Rightarrow> {c}) {f} \<and>
    mark (fobjs s' f) = Deleted"
proof -
  from run obtain s1 where d: "deleteFaceVertices k f None s = Inr s1"
    by (cases "deleteFaceVertices k f None s") (auto simp: bind_res_simps)
  define s2 where "s2 = set_mark f Deleted s1"
  from topo_eq_deleteFaceVertices[OF d] have te: "topo_eq s s1" .
  have st: "static_eq s s2"
    unfolding s2_def using topo_eq_static[OF te] set_mark_views(1) by (rule static_eq_trans)
  have mk: "mark (fobjs s2 g) = (if g = f then Deleted else mark (fobjs s g))" for g
    by (simp add: s2_def set_mark_views(2) topo_eq_views(3)[OF te])
  note v = static_eq_views[OF st]
  from m f have c3: "cycle3 s f" by (simp add: mesh_ok_def)
  have m2: "mesh_ok L s2" using m by (simp add: static_eq_mesh[OF st])
  have d2: "mark (fobjs s2 f) = Deleted" by (simp add: mk)
  have td: "todo s2 = todo s"
  proof (intro ext)
    fix c e show "todo s2 c e = todo s c e" unfolding todo_def v(1) ..
  qed
  show ?thesis
  proof (cases crossEdge)
    case None
    from c3 obtain e0 where e0: "edge (fobjs s f) = Some e0" "e0 \<in> set (face_edges s f)"
      by (rule cycle3_face_edges) simp
    from run d None have r: "horizon_loop n k p (Some e0) (Some e0) (s2, hz) = Inr (s', hz')"
      by (simp add: bind_res_simps s2_def[symmetric] Let_def getEdge_0 v(11) e0(1))
    from Q[OF m2 f _ _ d2 r] e0(2) obtain new where n: "hz' = hz @ new"
      "hpost L p s2 s' new (set (todo s e0 e0)) {} {}"
      by (auto simp: v td)
    from hpost_enter[OF st mk vis f c3 n(2), of "{}"] todo_all[OF c3 e0(1)] n(1) None
    show ?thesis by simp
  next
    case (Some c)
    from ce[OF Some] have c: "c \<in> set (face_edges s f)" .
    from edge_of_face(3)[OF c3 c] obtain e where e: "nxt s c = Some e" by blast
    note o = todo_others[OF c3 c e]
    from run d Some have r: "horizon_loop n k p (Some c) (Some e) (s2, hz) = Inr (s', hz')"
      using e by (simp add: bind_res_simps s2_def[symmetric] Let_def nxt_def[symmetric] v(1))
    from Q[OF m2 f _ _ d2 r] c o(2) obtain new where n: "hz' = hz @ new"
      "hpost L p s2 s' new (set (todo s c e)) {} {}"
      by (auto simp: v td)
    from hpost_enter[OF st mk vis f c3 n(2), of "{c}"] o(1) n(1) Some
    show ?thesis by auto
  qed
qed

lemma horizon_loop_step:
  assumes P: "\<And>c f s hz s' hz'. \<lbrakk>mesh_ok L s; f \<in> L; c \<in> set (face_edges s f);
        mark (fobjs s f) = Visible;
        computeHorizon n k p (Some c) f (s, hz) = Inr (s', hz')\<rbrakk>
      \<Longrightarrow> \<exists>new. hz' = hz @ new \<and> hpost L p s s' new {} {c} {f} \<and> mark (fobjs s' f) = Deleted"
    and Q: "\<And>c e f s hz s' hz'. \<lbrakk>mesh_ok L s; f \<in> L; c \<in> set (face_edges s f);
        e \<in> set (face_edges s f); mark (fobjs s f) = Deleted;
        horizon_loop n k p (Some c) (Some e) (s, hz) = Inr (s', hz')\<rbrakk>
      \<Longrightarrow> \<exists>new. hz' = hz @ new \<and> hpost L p s s' new (set (todo s c e)) {} {}"
    and m: "mesh_ok L s" and f: "f \<in> L" and c: "c \<in> set (face_edges s f)"
    and e: "e \<in> set (face_edges s f)" and del: "mark (fobjs s f) = Deleted"
    and run: "horizon_loop (Suc n) k p (Some c) (Some e) (s, hz) = Inr (s', hz')"
  shows "\<exists>new. hz' = hz @ new \<and> hpost L p s s' new (set (todo s c e)) {} {}"
proof -
  from m f have c3: "cycle3 s f" by (simp add: mesh_ok_def)
  note ef = edge_of_face(1)[OF c3 e]
  from m f e obtain y where y: "twn s e = Some y" "twn s y = Some e" "efc s y \<in> L"
    "y \<in> set (face_edges s (efc s y))"
    by (rule mesh_ok_paired)
  define g where "g = efc s y"
  define step where "step =
    (if mark (fobjs s g) = Visible
     then (if distanceToPoint (fobjs s g) p > tolerance s
           then computeHorizon n k p (Some y) g (s, hz) else Inr (s, hz @ [e]))
     else Inr (s, hz))"
  have tw: "twin (hedges s e) = Some y" using y(1) by (simp add: twn_def)
  have ey: "e_face (hedges s y) = g" by (simp add: g_def efc_def)
  have eq: "horizon_loop (Suc n) k p (Some c) (Some e) (s, hz) =
      bind_res step (\<lambda>sh1. if e_next (hedges (fst sh1) e) \<noteq> Some c
        then horizon_loop n k p (Some c) (e_next (hedges (fst sh1) e)) sh1 else Inr sh1)"
    by (simp add: tw ey Let_def step_def)
  note run' = run[unfolded eq]
  from run' obtain s1 hz1 where s1: "step = Inr (s1, hz1)"
    by (cases step) (auto simp: bind_res_simps)
  from run' have rest: "(if e_next (hedges s1 e) \<noteq> Some c
      then horizon_loop n k p (Some c) (e_next (hedges s1 e)) (s1, hz1) else Inr (s1, hz1))
      = Inr (s', hz')"
    unfolding s1 bind_res_simps by (simp cong: if_cong)
  have A: "\<exists>new1. hz1 = hz @ new1 \<and> hpost L p s s1 new1 {e} {} {}"
  proof (cases "mark (fobjs s g) = Visible")
    case False
    then have "twin_gone s s e" using y(1) by (auto simp: twin_gone_def g_def mark_cases)
    moreover from s1 False have "s1 = s" "hz1 = hz @ []" by (simp_all add: step_def)
    ultimately show ?thesis using hpost_skip[of s e L p] by blast
  next
    case True
    show ?thesis
    proof (cases "sees s p g")
      case False
      have "hpost L p s s [e] {e} {} {}"
        using f e y(1) False True by (intro hpost_add) (simp_all add: ef g_def)
      moreover from s1 True False have "s1 = s" "hz1 = hz @ [e]"
        by (simp_all add: step_def sees_def)
      ultimately show ?thesis by blast
    next
      case sg: True
      with s1 True have r: "computeHorizon n k p (Some y) g (s, hz) = Inr (s1, hz1)"
        by (simp add: step_def sees_def)
      from P[OF m y(3)[folded g_def] y(4)[folded g_def] True r] obtain new1 where
        n: "hz1 = hz @ new1" "hpost L p s s1 new1 {} {y} {g}" "mark (fobjs s1 g) = Deleted"
        by blast
      from hpost_call[OF n(2) sg n(3) g_def[symmetric] y(1,2)] del ef n(1)
      show ?thesis by simp
    qed
  qed
  then obtain new1 where n1: "hz1 = hz @ new1" "hpost L p s s1 new1 {e} {} {}" by blast
  from n1(2) have g1: "grows s s1" by (simp add: hpost_def)
  note v = grows_views[OF g1]
  from edge_of_face(3)[OF c3 e] obtain e1 where e1: "nxt s e = Some e1" by blast
  have nx: "e_next (hedges s1 e) = Some e1" using e1 v(3) by (simp add: nxt_def fun_eq_iff)
  show ?thesis
  proof (cases "e1 = c")
    case True
    with rest nx have "s' = s1" "hz' = hz1" by simp_all
    with n1 todo_last[of s e c] e1 True show ?thesis by simp
  next
    case False
    note t = todo_next[OF c3 e c e1 False]
    from rest nx False have r: "horizon_loop n k p (Some c) (Some e1) (s1, hz1) = Inr (s', hz')"
      by simp
    have "\<exists>new. hz' = hz1 @ new \<and> hpost L p s1 s' new (set (todo s1 c e1)) {} {}"
      using _ f _ _ _ r
    proof (rule Q)
      show "mesh_ok L s1" using m by (simp add: v)
      show "c \<in> set (face_edges s1 f)" "e1 \<in> set (face_edges s1 f)" using c t(3) by (simp_all add: v)
      show "mark (fobjs s1 f) = Deleted" using del by (rule grows_keeps_deleted[OF g1])
    qed
    then obtain new2 where n2: "hz' = hz1 @ new2" "hpost L p s1 s' new2 (set (todo s c e1)) {} {}"
      by (auto simp: v)
    have "hpost L p s s' (new1 @ new2) ({e} \<union> set (todo s c e1)) {} {}"
      using n1(2) n2(2)
    proof (rule hpost_seq)
      show "{e} \<inter> set (todo s c e1) = {}" using t(2) by simp
      fix x assume "x \<in> {e} \<union> set (todo s c e1)"
      with e t(4) have "x \<in> set (face_edges s f)" by auto
      from edge_of_face(1)[OF c3 this] del show "mark (fobjs s (efc s x)) = Deleted" by simp
    qed
    with n1(1) n2(1) t(1) show ?thesis by simp
  qed
qed

lemma horizon_spec:
  shows "\<lbrakk>mesh_ok L s; f \<in> L; c \<in> set (face_edges s f); mark (fobjs s f) = Visible;
        computeHorizon n k p (Some c) f (s, hz) = Inr (s', hz')\<rbrakk>
      \<Longrightarrow> \<exists>new. hz' = hz @ new \<and> hpost L p s s' new {} {c} {f} \<and> mark (fobjs s' f) = Deleted"
    and "\<And>e. \<lbrakk>mesh_ok L s; f \<in> L; c \<in> set (face_edges s f);
        e \<in> set (face_edges s f); mark (fobjs s f) = Deleted;
        horizon_loop n k p (Some c) (Some e) (s, hz) = Inr (s', hz')\<rbrakk>
      \<Longrightarrow> \<exists>new. hz' = hz @ new \<and> hpost L p s s' new (set (todo s c e)) {} {}"
proof (induction n arbitrary: c f s hz s' hz' and c f s hz s' hz')
  case 0
  {
    case 1
    then show ?case by simp
  next
    case 2
    then show ?case by simp
  }
next
  case (Suc n)
  have Q: "\<exists>new. hz' = hz @ new \<and> hpost L p s s' new (set (todo s c e)) {} {}"
    if "mesh_ok L s" "f \<in> L" "c \<in> set (face_edges s f)" "e \<in> set (face_edges s f)"
      "mark (fobjs s f) = Deleted" "horizon_loop n k p (Some c) (Some e) (s, hz) = Inr (s', hz')"
    for c e f s hz s' hz'
    using that by (rule Suc.IH(2))
  have P: "\<exists>new. hz' = hz @ new \<and> hpost L p s s' new {} {c} {f} \<and> mark (fobjs s' f) = Deleted"
    if "mesh_ok L s" "f \<in> L" "c \<in> set (face_edges s f)" "mark (fobjs s f) = Visible"
      "computeHorizon n k p (Some c) f (s, hz) = Inr (s', hz')"
    for c f s hz s' hz'
    using that by (rule Suc.IH(1))
  {
    case 1
    have "\<exists>new. hz' = hz @ new \<and>
      hpost L p s s' new {} (case Some c of None \<Rightarrow> {} | Some c \<Rightarrow> {c}) {f} \<and>
      mark (fobjs s' f) = Deleted"
    proof (rule computeHorizon_step)
      show "mesh_ok L s" "f \<in> L" "mark (fobjs s f) = Visible"
        "computeHorizon (Suc n) k p (Some c) f (s, hz) = Inr (s', hz')"
        by fact+
      show "\<And>c'. Some c = Some c' \<Longrightarrow> c' \<in> set (face_edges s f)" using 1(3) by simp
    qed (rule Q)
    then show ?case by simp
  next
    case 2
    show ?case
      by (rule horizon_loop_step[where n = n and k = k, OF _ _ 2]) (erule (4) P, erule (5) Q)
  }
qed

lemma horizon_root:
  assumes m: "mesh_ok L s" and f: "f \<in> L" and vis: "mark (fobjs s f) = Visible"
    and run: "computeHorizon n k p None f (s, hz) = Inr (s', hz')"
  shows "\<exists>new. hz' = hz @ new \<and> hpost L p s s' new {} {} {f}"
proof (cases n)
  case 0
  with run show ?thesis by simp
next
  case (Suc j)
  have "\<exists>new. hz' = hz @ new \<and>
      hpost L p s s' new {} (case None of None \<Rightarrow> {} | Some c \<Rightarrow> {c}) {f} \<and>
      mark (fobjs s' f) = Deleted"
  proof (rule computeHorizon_step)
    show "mesh_ok L s" "f \<in> L" "mark (fobjs s f) = Visible" by fact+
    show "computeHorizon (Suc j) k p None f (s, hz) = Inr (s', hz')" using run Suc by simp
    show "\<And>c. None = Some c \<Longrightarrow> c \<in> set (face_edges s f)" by simp
  qed (rule horizon_spec(2))
  then show ?thesis by (simp only: option.case) blast
qed

lemma horizon_fan:
  assumes m: "mesh_ok (live_faces s) s"
    and h: "hpost (live_faces s) p s s' hz {} {} R"
  shows "fan_inv s' hz None None"
proof -
  define L where "L = live_faces s"
  note m = m[folded L_def] and h = h[folded L_def]
  from h have g: "grows s s'" by (simp add: hpost_def)
  note v = grows_views[OF g]
  have vis: "mark (fobjs s f) = Visible" if "f \<in> L" for f
    using that by (simp add: L_def live_faces_def)
  have l': "f \<in> live_faces s' \<longleftrightarrow> f \<in> L \<and> mark (fobjs s' f) = Visible" for f
    using grows_was_visible[OF g, of f] by (auto simp: live_faces_def L_def v)
  have a: "newly s s' (efc s x)" "efc s x \<in> L" "x \<in> set (face_edges s (efc s x))"
    "\<exists>y. twn s x = Some y \<and> mark (fobjs s' (efc s y)) = Visible"
    if "x \<in> set hz" for x
    using h that unfolding hpost_def by blast+
  have b: "x \<in> set hz \<or> twin_gone s' s x" if "newly s s' k" "x \<in> set (face_edges s k)" for k x
    using h that unfolding hpost_def by blast
  have c3: "cycle3 s f" "f < n_fobjs s" if "f \<in> L" for f
    using m that by (simp_all add: mesh_ok_def)
  have le: "live_e s' x \<longleftrightarrow> efc s x \<in> L \<and> mark (fobjs s' (efc s x)) = Visible
      \<and> x \<in> set (face_edges s (efc s x))" for x
    by (auto simp: live_e_def l' v)
  show ?thesis
    unfolding fan_inv_def
  proof (intro conjI ballI allI impI)
    fix k assume "k \<in> live_faces s'"
    with l' c3 show "k < n_fobjs s'" "cycle3 s' k" by (simp_all add: v)
  next
    from h show "distinct hz" by (simp add: hpost_def)
  next
    fix x assume x: "x \<in> set hz"
    from a(4)[OF x] obtain y where y: "twn s x = Some y" "mark (fobjs s' (efc s y)) = Visible"
      by blast
    from m a(2,3)[OF x] obtain y' where y': "twn s x = Some y'" "twn s y' = Some x"
      "efc s y' \<in> L" "y' \<in> set (face_edges s (efc s y'))"
      by (rule mesh_ok_paired)
    from y y' have "live_e s' y" "twn s y = Some x" by (simp_all add: le)
    moreover have "x < n_hedges s" using edge_of_face(2)[OF c3(1)[OF a(2)[OF x]] a(3)[OF x]] .
    moreover have "efc s x \<notin> live_faces s'" using a(1)[OF x] by (simp add: l' newly_def)
    ultimately show "pending s' x"
      using y(1) c3(2)[OF a(2)[OF x]] by (auto simp: pending_def v)
  next
    fix x assume "live_e s' x"
    then have x: "efc s x \<in> L" "mark (fobjs s' (efc s x)) = Visible"
      "x \<in> set (face_edges s (efc s x))" by (simp_all add: le)
    from m x(1,3) obtain y where y: "twn s x = Some y" "twn s y = Some x"
      "efc s y \<in> L" "y \<in> set (face_edges s (efc s y))"
      by (rule mesh_ok_paired)
    show "paired (live_faces s') s' x \<or> (\<exists>h \<in> set hz. twn s' h = Some x)
        \<or> open_edge s' None None x"
    proof (cases "mark (fobjs s' (efc s y)) = Visible")
      case True
      with y have "live_e s' y" by (simp add: le)
      with y(1,2) show ?thesis by (auto simp: paired_live v)
    next
      case False
      with vis[OF y(3)] have "newly s s' (efc s y)" by (simp add: newly_def mark_cases)
      from b[OF this y(4)] y(2) x(2) have "y \<in> set hz" by (auto simp: twin_gone_def)
      with y(2) show ?thesis by (auto simp: v)
    qed
  next
    show "fan_ends s' None None" by (simp add: fan_ends_def)
  qed
qed

lemma list_clear_vnodes [simp]: "vnodes (list_clear l s) = vnodes s"
  by (cases l) (simp_all add: list_clear_def set_head_def set_tail_def)

lemma addVertexToHull_inv:
  assumes inv: "hull_inv s" and vf: "v_face (vnodes s v) = Some f" and fl: "f \<in> live_faces s"
    and run: "addVertexToHull k v s = Inr s'"
  shows "hull_inv s'"
proof -
  define s1 where "s1 = list_clear Unassigned s"
  define s2 where "s2 = removeVertexFromFace v f s1"
  have t2: "topo_eq s s2"
    unfolding s2_def s1_def
    using topo_eq_list_ops(1) topo_eq_removeVertexFromFace by (rule topo_eq_trans)
  have eq: "addVertexToHull k v s =
      bind_res (computeHorizon k k (point (vnodes s2 v)) None f (s2, []))
        (\<lambda>(s3, horizon). bind_res (addNewFaces v horizon s3)
           (\<lambda>s4. resolveUnassignedPoints k (newFaces s4) s4))"
    unfolding addVertexToHull_def Let_def s2_def s1_def by (simp add: vf)
  note run' = run[unfolded eq]
  from run' obtain s3 hz where
    ch: "computeHorizon k k (point (vnodes s2 v)) None f (s2, []) = Inr (s3, hz)"
    by (cases "computeHorizon k k (point (vnodes s2 v)) None f (s2, [])")
      (auto simp: bind_res_simps)
  from run' obtain s4 where an: "addNewFaces v hz s3 = Inr s4"
    and rs: "resolveUnassignedPoints k (newFaces s4) s4 = Inr s'"
    unfolding ch bind_res_simps prod.case
    by (cases "addNewFaces v hz s3") (auto simp: bind_res_simps)
  have "hull_inv s2" using inv by (simp add: topo_eq_views[OF t2])
  then have m2: "mesh_ok (live_faces s2) s2" by (simp add: hull_inv_def)
  have f2: "f \<in> live_faces s2" using fl by (simp add: topo_eq_views[OF t2])
  then have vis: "mark (fobjs s2 f) = Visible" by (simp add: live_faces_def)
  from horizon_root[OF m2 f2 vis ch] have "hpost (live_faces s2) (point (vnodes s2 v)) s2 s3 hz {} {} {f}"
    by simp
  from horizon_fan[OF m2 this] have "fan_inv s3 hz None None" .
  from addNewFaces_inv[OF this an] have "hull_inv s4" .
  with topo_eq_resolveUnassignedPoints[OF rs] show ?thesis by (simp add: topo_eq_views)
qed

lemma hull_inv_empty: "faces s = [] \<Longrightarrow> hull_inv s"
  by (simp add: hull_inv_def live_faces_def mesh_ok_def)

lemma cleanup_inv: "hull_inv (cleanup (reindexFaces s)) = hull_inv s"
proof -
  have a: "hull_inv (reindexFaces s) = hull_inv s"
    by (simp add: reindexFaces_def hull_inv_def live_faces_def)
  have "topo_eq (reindexFaces s) (list_clear Unassigned (list_clear Assigned (reindexFaces s)))"
    using topo_eq_list_ops(1) topo_eq_list_ops(1) by (rule topo_eq_trans)
  from topo_eq_views(2)[OF this] a show ?thesis by (simp add: cleanup_def)
qed

text \<open>
  C7: the two operations that create and stitch faces keep the mesh closed. When
  \<^verbatim>\<open>computeInitialHull\<close> returns, and when \<^verbatim>\<open>addVertexToHull\<close> returns (it runs
  \<^verbatim>\<open>computeHorizon\<close>, \<^verbatim>\<open>addNewFaces\<close> and \<^verbatim>\<open>resolveUnassignedPoints\<close>, and only
  \<^verbatim>\<open>addNewFaces\<close> writes to the mesh), every live face has three edges with
  \<^verbatim>\<open>edge.next.next.next === edge\<close>, and every edge \<open>e\<close> of a live face has
  \<^verbatim>\<open>e.twin.twin === e\<close>, its twin being an edge of a live face. The state before satisfies
  the invariant (a hull without faces does), and the eye vertex is assigned to a live
  face, as the ledger of the builder has it.
\<close>

theorem mesh_closed:
  "(hull_inv s \<and> computeInitialHull s = Inr sa \<longrightarrow> hull_inv sa \<and> closed_mesh sa) \<and>
   (hull_inv s \<and> v_face (vnodes s v) = Some f \<and> f \<in> live_faces s \<and>
      addVertexToHull k v s = Inr sb \<longrightarrow> hull_inv sb \<and> closed_mesh sb)"
proof (intro conjI impI; elim conjE)
  assume "hull_inv s" "computeInitialHull s = Inr sa"
  then have "hull_inv sa" by (rule computeInitialHull_inv)
  then show "hull_inv sa" "closed_mesh sa" by (simp_all add: hull_inv_closed)
next
  assume "hull_inv s" "v_face (vnodes s v) = Some f" "f \<in> live_faces s"
    "addVertexToHull k v s = Inr sb"
  then have "hull_inv sb" by (rule addVertexToHull_inv)
  then show "hull_inv sb" "closed_mesh sb" by (simp_all add: hull_inv_closed)
qed

lemma cloud_steps:
  "case computeInitialHull (push_vertices cloud (makeEmpty new_ConvexHull)) of
     Inl _ \<Rightarrow> False
   | Inr s1 \<Rightarrow> v_face (vnodes s1 4) = Some 1 \<and> faces s1 = [0, 1, 2, 3] \<and>
       mark (fobjs s1 1) = Visible \<and>
       (case addVertexToHull 5 4 s1 of Inl _ \<Rightarrow> False | Inr s2 \<Rightarrow> length (faces s2) = 7)"
  by (simp add: cloud_def eval_simps sqrt_169 cong: bind_res_cong Let_weak)

theorem mesh_closed_witness:
  "\<exists>s1 s2. computeInitialHull (push_vertices cloud (makeEmpty new_ConvexHull)) = Inr s1 \<and>
     addVertexToHull 5 4 s1 = Inr s2 \<and> v_face (vnodes s1 4) = Some 1 \<and> 1 \<in> live_faces s1 \<and>
     hull_inv s1 \<and> closed_mesh s1 \<and> hull_inv s2 \<and> closed_mesh s2 \<and> length (faces s2) = 7"
proof -
  define s0 where "s0 = push_vertices cloud (makeEmpty new_ConvexHull)"
  have h0: "hull_inv s0"
    by (rule hull_inv_empty) (simp add: s0_def push_vertices_fields makeEmpty_def)
  from cloud_steps obtain s1 where s1: "computeInitialHull s0 = Inr s1"
    "v_face (vnodes s1 4) = Some 1" "faces s1 = [0, 1, 2, 3]" "mark (fobjs s1 1) = Visible"
    and c: "case addVertexToHull 5 4 s1 of Inl _ \<Rightarrow> False | Inr s2 \<Rightarrow> length (faces s2) = 7"
    unfolding s0_def[symmetric] by (cases "computeInitialHull s0") auto
  from c obtain s2 where s2: "addVertexToHull 5 4 s1 = Inr s2" "length (faces s2) = 7"
    by (cases "addVertexToHull 5 4 s1") auto
  have l: "1 \<in> live_faces s1" using s1(3,4) by (simp add: live_faces_def)
  from mesh_closed [where s = s0 and sa = s1] h0 s1(1)
  have a: "hull_inv s1" "closed_mesh s1" by simp_all
  from mesh_closed [where s = s1 and v = 4 and f = 1 and k = 5 and sb = s2] a(1) s1(2) l s2(1)
  have b: "hull_inv s2" "closed_mesh s2" by simp_all
  from s1 s2 l a b show ?thesis unfolding s0_def by blast
qed

end
